theory Spec2Isabelle
  imports Complex_Main
begin

section \<open>Errors\<close>

text \<open>
  Every Python exception of \<^verbatim>\<open>lsd/agglomerate.py\<close> is a value. \<open>KeyError\<close> is a
  missing node, edge or attribute of the region adjacency graph, \<open>IndexError\<close> and
  \<open>ValueError\<close> are the array library's complaints about indices and shapes,
  \<open>ZeroDivisionError\<close> is a zero voxel size or grid cell, \<open>TypeError\<close> is the region
  library's complaint about a region that has no offset. \<open>ShapeMismatch\<close> and
  \<open>InvalidRegion\<close> are the two error kinds the specification names; no statement of the
  source raises them.
\<close>

datatype error =
  KeyError | IndexError | ValueError | ZeroDivisionError | TypeError | ShapeMismatch | InvalidRegion

fun ebind :: "error + 'a \<Rightarrow> ('a \<Rightarrow> error + 'b) \<Rightarrow> error + 'b" where
  "ebind (Inl e) f = Inl e"
| "ebind (Inr x) f = f x"

fun succeeds :: "error + 'a \<Rightarrow> bool" where
  "succeeds (Inl e) = False"
| "succeeds (Inr x) = True"

section \<open>N-dimensional arrays\<close>

text \<open>
  A numpy array is its shape and its elements, read at an index (one integer per axis).
  Only the elements at indices within the shape are meaningful. A descriptor volume has
  the channel axis first: its indices are \<open>c # p\<close> for a channel \<open>c\<close> and a voxel \<open>p\<close>.
\<close>

record 'a ndarray =
  shape :: "int list"
  elems :: "int list \<Rightarrow> 'a"

definition in_range :: "int list \<Rightarrow> int list \<Rightarrow> bool" where
  "in_range sh p = list_all2 (\<lambda>x n. 0 \<le> x \<and> x < n) p sh"

fun indices :: "int list \<Rightarrow> int list list" where
  "indices [] = [[]]"
| "indices (n # ns) = concat (map (\<lambda>i. map ((#) i) (indices ns)) [0..n - 1])"

definition np_array :: "'a ndarray \<Rightarrow> 'a ndarray" where
  \<comment> \<open>\<^verbatim>\<open>np.array(a)\<close>: a fresh array with the contents of \<open>a\<close>; writes to it reach no other array.\<close>
  "np_array a = a"

definition np_zeros_like :: "real ndarray \<Rightarrow> real ndarray" where
  "np_zeros_like a = \<lparr>shape = shape a, elems = (\<lambda>p. 0)\<rparr>"

definition np_sub :: "real ndarray \<Rightarrow> real ndarray \<Rightarrow> error + real ndarray" where
  \<comment> \<open>\<^verbatim>\<open>a - b\<close> for arrays of one shape; shapes that differ are numpy's broadcast error
      (broadcasting of length-one axes is not modelled).\<close>
  "np_sub a b =
     (if shape a \<noteq> shape b then Inl ValueError
      else Inr \<lparr>shape = shape a, elems = (\<lambda>p. elems a p - elems b p)\<rparr>)"

definition np_square :: "real ndarray \<Rightarrow> real ndarray" where
  "np_square a = \<lparr>shape = shape a, elems = (\<lambda>p. (elems a p)\<^sup>2)\<rparr>"

definition np_sum :: "real ndarray \<Rightarrow> real" where
  "np_sum a = sum_list (map (elems a) (indices (shape a)))"

definition eq_mask :: "int ndarray \<Rightarrow> int \<Rightarrow> bool ndarray" where
  \<comment> \<open>\<^verbatim>\<open>a == x\<close>\<close>
  "eq_mask a x = \<lparr>shape = shape a, elems = (\<lambda>p. elems a p = x)\<rparr>"

definition np_isin :: "int ndarray \<Rightarrow> int list \<Rightarrow> bool ndarray" where
  "np_isin a xs = \<lparr>shape = shape a, elems = (\<lambda>p. elems a p \<in> set xs)\<rparr>"

definition np_logical_not :: "bool ndarray \<Rightarrow> bool ndarray" where
  "np_logical_not m = \<lparr>shape = shape m, elems = (\<lambda>p. \<not> elems m p)\<rparr>"

subsection \<open>Basic slicing: views\<close>

text \<open>
  \<^verbatim>\<open>a[slices]\<close> with a tuple of \<^verbatim>\<open>slice(start, stop)\<close> objects is a view: per axis a
  start and a length inside the array, computed as Python's \<^verbatim>\<open>slice.indices\<close> does (a
  negative bound counts from the end, a bound past the end is clipped). Axes without a
  slice are taken whole; more slices than axes is an \<open>IndexError\<close>.
\<close>

datatype pyslice = Slice "int option" "int option"

definition clip_index :: "int \<Rightarrow> int \<Rightarrow> int" where
  "clip_index n x = (if x < 0 then max (x + n) 0 else min x n)"

fun slice_indices :: "pyslice \<Rightarrow> int \<Rightarrow> int \<times> int" where
  "slice_indices (Slice a b) n =
     ((case a of None \<Rightarrow> 0 | Some x \<Rightarrow> clip_index n x),
      (case b of None \<Rightarrow> n | Some x \<Rightarrow> clip_index n x))"

fun basic_index :: "int list \<Rightarrow> pyslice list \<Rightarrow> error + (int \<times> int) list" where
  "basic_index [] [] = Inr []"
| "basic_index [] (s # ss) = Inl IndexError"
| "basic_index (n # ns) [] = Inr (map (\<lambda>m. (0, m)) (n # ns))"
| "basic_index (n # ns) (s # ss) =
     ebind (basic_index ns ss) (\<lambda>r.
       Inr ((fst (slice_indices s n), max 0 (snd (slice_indices s n) - fst (slice_indices s n))) # r))"

record view =
  v_start :: "int list"
  v_shape :: "int list"

definition getitem :: "'a ndarray \<Rightarrow> pyslice list \<Rightarrow> error + view" where
  "getitem a sl =
     ebind (basic_index (shape a) sl) (\<lambda>bs. Inr \<lparr>v_start = map fst bs, v_shape = map snd bs\<rparr>)"

definition read_view :: "'a ndarray \<Rightarrow> view \<Rightarrow> 'a ndarray" where
  \<comment> \<open>the array seen through a view of \<open>a\<close>\<close>
  "read_view a vw = \<lparr>shape = v_shape vw, elems = (\<lambda>p. elems a (map2 (+) (v_start vw) p))\<rparr>"

definition rel_index :: "view \<Rightarrow> int list \<Rightarrow> int list" where
  "rel_index vw q = map2 (-) q (v_start vw)"

definition in_view :: "view \<Rightarrow> int list \<Rightarrow> bool" where
  "in_view vw q = (length q = length (v_start vw) \<and> in_range (v_shape vw) (rel_index vw q))"

definition setitem_mask :: "'a ndarray \<Rightarrow> view \<Rightarrow> bool ndarray \<Rightarrow> 'a \<Rightarrow> error + 'a ndarray" where
  \<comment> \<open>\<^verbatim>\<open>w[mask] = x\<close> where \<open>w\<close> is the view \<open>vw\<close> of \<open>a\<close>: the write goes through to \<open>a\<close>.\<close>
  "setitem_mask a vw m x =
     (if shape m \<noteq> v_shape vw then Inl IndexError
      else Inr (a\<lparr>elems := (\<lambda>q. if in_view vw q \<and> elems m (rel_index vw q) then x else elems a q)\<rparr>))"

definition setitem_chan_mask ::
  "real ndarray \<Rightarrow> view \<Rightarrow> bool ndarray \<Rightarrow> real ndarray \<Rightarrow> error + real ndarray" where
  \<comment> \<open>\<^verbatim>\<open>w[:, mask] = b[:, mask]\<close> where \<open>w\<close> is the view \<open>vw\<close> of \<open>a\<close>: every channel of the
      voxels the mask selects is copied from \<open>b\<close>, through to \<open>a\<close>. The mask has to cover
      the axes after the channel axis of both arrays, and the channel counts have to agree.\<close>
  "setitem_chan_mask a vw m b =
     (if v_shape vw = [] \<or> shape b = [] then Inl IndexError
      else if tl (v_shape vw) \<noteq> shape m \<or> tl (shape b) \<noteq> shape m then Inl IndexError
      else if hd (shape b) \<noteq> hd (v_shape vw) then Inl ValueError
      else Inr (a\<lparr>elems := (\<lambda>q. if in_view vw q \<and> elems m (tl (rel_index vw q))
                                  then elems b (rel_index vw q) else elems a q)\<rparr>))"

definition setitem_chan_mask_scalar ::
  "real ndarray \<Rightarrow> bool ndarray \<Rightarrow> real \<Rightarrow> error + real ndarray" where
  \<comment> \<open>\<^verbatim>\<open>a[:, mask] = x\<close> on an array \<open>a\<close> of its own\<close>
  "setitem_chan_mask_scalar a m x =
     (if shape a = [] then Inl IndexError
      else if tl (shape a) \<noteq> shape m then Inl IndexError
      else Inr (a\<lparr>elems := (\<lambda>q. if elems m (tl q) then x else elems a q)\<rparr>))"

section \<open>Region geometry\<close>

text \<open>
  Modelled from the spec: the region type \<^verbatim>\<open>gp.Roi\<close> belongs to the gunpowder library and
  is not part of the sources. A region is an offset and a shape per axis, closed-open.
  \<open>grow\<close> expands it by margins per axis, \<open>intersect\<close> returns the overlap, which may be
  empty, \<open>union_roi\<close> the smallest region containing both, \<open>snap_to_grid\<close> rounds the begin
  down and the end up to multiples of the cell size, \<open>roi_sub\<close> translates a region to be
  relative to an origin. All operations are pure.

  The empty overlap is placed nowhere: the specification gives it no offset, and the
  library builds it from a shape of zeros alone (\<^verbatim>\<open>Roi(shape=(0,)*dims)\<close>). It is \<open>None\<close>
  here, and a region with an offset is \<open>Some r\<close>. The empty region intersects nothing,
  so its intersection with any region is the empty region again; growing it needs the
  offset it does not have and is the library's \<open>TypeError\<close>.
\<close>

record roi =
  roi_offset :: "int list"
  roi_shape :: "int list"

definition get_begin :: "roi \<Rightarrow> int list" where
  "get_begin r = roi_offset r"

definition get_end :: "roi \<Rightarrow> int list" where
  "get_end r = map2 (+) (roi_offset r) (roi_shape r)"

definition from_begin_end :: "int list \<Rightarrow> int list \<Rightarrow> roi" where
  "from_begin_end b e = \<lparr>roi_offset = b, roi_shape = map2 (-) e b\<rparr>"

definition dims :: "roi \<Rightarrow> nat" where
  "dims r = length (roi_shape r)"

definition roi_empty :: "roi \<Rightarrow> bool" where
  "roi_empty r = (prod_list (roi_shape r) = 0)"

definition grow :: "roi \<Rightarrow> int list \<Rightarrow> int list \<Rightarrow> roi" where
  "grow r amount_neg amount_pos =
     \<lparr>roi_offset = map2 (-) (roi_offset r) amount_neg,
      roi_shape = map2 (+) (map2 (+) (roi_shape r) amount_neg) amount_pos\<rparr>"

definition separated :: "roi \<Rightarrow> roi \<Rightarrow> bool" where
  "separated a b =
     list_ex (\<lambda>((b1, e1), (b2, e2)). b1 \<ge> e2 \<or> b2 \<ge> e1)
       (zip (zip (get_begin a) (get_end a)) (zip (get_begin b) (get_end b)))"

definition intersects :: "roi \<Rightarrow> roi \<Rightarrow> bool" where
  "intersects a b = (\<not> roi_empty a \<and> \<not> roi_empty b \<and> \<not> separated a b)"

definition overlap :: "roi \<Rightarrow> roi \<Rightarrow> roi" where
  \<comment> \<open>the overlap of two regions that intersect: from the greater begin to the lesser end\<close>
  "overlap a b =
     from_begin_end (map2 max (get_begin a) (get_begin b)) (map2 min (get_end a) (get_end b))"

definition intersect :: "roi \<Rightarrow> roi \<Rightarrow> roi option" where
  "intersect a b = (if \<not> intersects a b then None else Some (overlap a b))"

definition region_intersect :: "roi option \<Rightarrow> roi option \<Rightarrow> roi option" where
  \<comment> \<open>\<^verbatim>\<open>a.intersect(b)\<close> where \<open>a\<close> or \<open>b\<close> may be the empty region\<close>
  "region_intersect a b =
     (case a of None \<Rightarrow> None
      | Some a \<Rightarrow> (case b of None \<Rightarrow> None | Some b \<Rightarrow> intersect a b))"

definition region_grow :: "roi option \<Rightarrow> int list \<Rightarrow> int list \<Rightarrow> error + roi" where
  \<comment> \<open>\<^verbatim>\<open>a.grow(amount_neg, amount_pos)\<close> where \<open>a\<close> may be the empty region\<close>
  "region_grow a amount_neg amount_pos =
     (case a of None \<Rightarrow> Inl TypeError | Some a \<Rightarrow> Inr (grow a amount_neg amount_pos))"

definition union_roi :: "roi \<Rightarrow> roi \<Rightarrow> roi" where
  "union_roi a b =
     from_begin_end (map2 min (get_begin a) (get_begin b)) (map2 max (get_end a) (get_end b))"

definition roi_sub :: "roi \<Rightarrow> int list \<Rightarrow> roi" where
  "roi_sub r by = \<lparr>roi_offset = map2 (-) (roi_offset r) by, roi_shape = roi_shape r\<rparr>"

definition snap_to_grid :: "roi \<Rightarrow> int list \<Rightarrow> error + roi" where
  "snap_to_grid r cell =
     (if 0 \<in> set cell then Inl ZeroDivisionError
      else Inr (from_begin_end
                  (map2 (\<lambda>b c. (b div c) * c) (get_begin r) cell)
                  (map2 (\<lambda>e c. (- ((- e) div c)) * c) (get_end r) cell)))"

definition to_slices :: "roi \<Rightarrow> pyslice list" where
  "to_slices r = map2 (\<lambda>b e. Slice (Some b) (Some e)) (get_begin r) (get_end r)"

definition roi_contains :: "roi \<Rightarrow> int list \<Rightarrow> bool" where
  \<comment> \<open>the voxel \<open>p\<close> lies in the region\<close>
  "roi_contains r p =
     (length p = dims r \<and> length (roi_offset r) = dims r \<and>
      list_all2 (\<lambda>x (b, e). b \<le> x \<and> x < e) p (zip (get_begin r) (get_end r)))"

section \<open>The descriptor extractor\<close>

text \<open>
  The extractor is a collaborator of the agglomerator, taken as a parameter: its context
  radius in physical units, its downsampling factor, and \<open>get_descriptors\<close>, which
  receives a labelled array, an optional region of it, the labels and the voxel size and
  returns a descriptor array (channel axis first) over the region, or over the whole
  input where no region is given.
\<close>

record extractor =
  get_context :: "real list"
  downsample :: int
  get_descriptors :: "int ndarray \<Rightarrow> roi option \<Rightarrow> int list \<Rightarrow> int list \<Rightarrow> error + real ndarray"

section \<open>The region adjacency graph and the agglomerator's state\<close>

record node_attr =
  n_roi :: "roi option"
  n_score :: "real option"
  n_labels :: "int list option"

record rag_graph =
  node_ids :: "int list"
  node :: "int \<rightharpoonup> node_attr"
  edge_ids :: "(int \<times> int) list"
  weight :: "int \<times> int \<rightharpoonup> real"

record state =
  segmentation :: "int ndarray"
  lsds :: "real ndarray"
  fragments :: "int ndarray"
  target_lsds :: "real ndarray"
  lsd_extractor :: extractor
  self_context :: "real list"
  voxel_size :: "int list"
  rag :: rag_graph

definition ekey :: "int \<Rightarrow> int \<Rightarrow> int \<times> int" where
  \<comment> \<open>the graph is undirected: \<^verbatim>\<open>rag[u][v]\<close> and \<^verbatim>\<open>rag[v][u]\<close> are one edge\<close>
  "ekey u v = (min u v, max u v)"

definition has_edge :: "rag_graph \<Rightarrow> int \<Rightarrow> int \<Rightarrow> bool" where
  "has_edge g u v = (ekey u v \<in> set (edge_ids g))"

definition node_roi :: "state \<Rightarrow> int \<Rightarrow> error + roi" where
  \<comment> \<open>\<^verbatim>\<open>self.rag.node[u]['roi']\<close>\<close>
  "node_roi s u =
     (case node (rag s) u of None \<Rightarrow> Inl KeyError
      | Some a \<Rightarrow> (case n_roi a of None \<Rightarrow> Inl KeyError | Some r \<Rightarrow> Inr r))"

definition node_score :: "state \<Rightarrow> int \<Rightarrow> error + real" where
  \<comment> \<open>\<^verbatim>\<open>self.rag.node[u]['score']\<close>\<close>
  "node_score s u =
     (case node (rag s) u of None \<Rightarrow> Inl KeyError
      | Some a \<Rightarrow> (case n_score a of None \<Rightarrow> Inl KeyError | Some x \<Rightarrow> Inr x))"

definition edge_weight :: "state \<Rightarrow> int \<Rightarrow> int \<Rightarrow> error + real" where
  \<comment> \<open>\<^verbatim>\<open>self.rag[u][v]['weight']\<close>\<close>
  "edge_weight s u v =
     (if \<not> has_edge (rag s) u v then Inl KeyError
      else case weight (rag s) (ekey u v) of None \<Rightarrow> Inl KeyError | Some w \<Rightarrow> Inr w)"

definition set_node_roi :: "state \<Rightarrow> int \<Rightarrow> roi \<Rightarrow> error + state" where
  \<comment> \<open>\<^verbatim>\<open>self.rag.node[u]['roi'] = r\<close>\<close>
  "set_node_roi s u r =
     (case node (rag s) u of None \<Rightarrow> Inl KeyError
      | Some a \<Rightarrow> Inr (s\<lparr>rag := (rag s)\<lparr>node := (node (rag s))(u \<mapsto> a\<lparr>n_roi := Some r\<rparr>)\<rparr>\<rparr>))"

definition set_node_score :: "state \<Rightarrow> int \<Rightarrow> real \<Rightarrow> error + state" where
  \<comment> \<open>\<^verbatim>\<open>self.rag.node[u]['score'] = x\<close>\<close>
  "set_node_score s u x =
     (case node (rag s) u of None \<Rightarrow> Inl KeyError
      | Some a \<Rightarrow> Inr (s\<lparr>rag := (rag s)\<lparr>node := (node (rag s))(u \<mapsto> a\<lparr>n_score := Some x\<rparr>)\<rparr>\<rparr>))"

definition set_node_labels :: "state \<Rightarrow> int \<Rightarrow> int list \<Rightarrow> error + state" where
  \<comment> \<open>\<^verbatim>\<open>self.rag.node[u]['labels'] = ls\<close>\<close>
  "set_node_labels s u ls =
     (case node (rag s) u of None \<Rightarrow> Inl KeyError
      | Some a \<Rightarrow> Inr (s\<lparr>rag := (rag s)\<lparr>node := (node (rag s))(u \<mapsto> a\<lparr>n_labels := Some ls\<rparr>)\<rparr>\<rparr>))"

definition set_edge_weight :: "state \<Rightarrow> int \<Rightarrow> int \<Rightarrow> real \<Rightarrow> error + state" where
  \<comment> \<open>\<^verbatim>\<open>self.rag[u][v]['weight'] = w\<close>\<close>
  "set_edge_weight s u v w =
     (if \<not> has_edge (rag s) u v then Inl KeyError
      else Inr (s\<lparr>rag := (rag s)\<lparr>weight := (weight (rag s))(ekey u v \<mapsto> w)\<rparr>\<rparr>))"

section \<open>The incremental scorer\<close>

fun context_in_voxels :: "real list \<Rightarrow> int list \<Rightarrow> error + int list" where
  \<comment> \<open>\<^verbatim>\<open>tuple(int(math.ceil(c/vs)) for c, vs in zip(self.context, self.voxel_size))\<close>\<close>
  "context_in_voxels (c # cs) (v # vs) =
     (if v = 0 then Inl ZeroDivisionError
      else ebind (context_in_voxels cs vs) (\<lambda>r. Inr (\<lceil>c / of_int v\<rceil> # r)))"
| "context_in_voxels cs vs = Inr []"

definition total_roi :: "state \<Rightarrow> roi" where
  \<comment> \<open>the region of the complete volume:
      \<^verbatim>\<open>gp.Roi((0,)*len(self.segmentation.shape), self.segmentation.shape)\<close>\<close>
  "total_roi s = \<lparr>roi_offset = replicate (length (shape (segmentation s))) 0,
                  roi_shape = shape (segmentation s)\<rparr>"

definition get_lsds_edge_rois :: "state \<Rightarrow> int \<Rightarrow> int \<Rightarrow> error + roi \<times> roi" where
  \<comment> \<open>An empty change region stops the derivation where it is grown. The pair is returned
      as computed; a context region that is empty beside a change region that is not (a
      context radius is negative then) has no offset for the slicing and the translation
      that both callers begin with, and is a \<open>TypeError\<close> of the derivation here.\<close>
  "get_lsds_edge_rois s u v =
     ebind (node_roi s u) (\<lambda>roi_u.
     ebind (node_roi s v) (\<lambda>roi_v.
     let total_roi = total_roi s in
     ebind (context_in_voxels (self_context s) (voxel_size s)) (\<lambda>ctx.
     let roi_u_grown = intersect (grow roi_u ctx ctx) total_roi;
         roi_v_grown = intersect (grow roi_v ctx ctx) total_roi;
         change_roi = region_intersect roi_u_grown roi_v_grown;
         change_roi = region_intersect change_roi (Some (union_roi roi_u roi_v)) in
     ebind (region_grow change_roi ctx ctx) (\<lambda>context_roi.
     let context_roi = intersect context_roi (union_roi roi_u roi_v) in
     (case (change_roi, context_roi) of
        (Some change_roi, Some context_roi) \<Rightarrow> Inr (change_roi, context_roi)
      | _ \<Rightarrow> Inl TypeError)))))"

definition compute_node_score :: "state \<Rightarrow> int \<Rightarrow> error + real \<times> state" where
  "compute_node_score s u =
     ebind (node_roi s u) (\<lambda>roi.
     ebind (getitem (segmentation s) (to_slices roi)) (\<lambda>seg_view.
     let seg = read_view (segmentation s) seg_view in
     ebind (get_descriptors (lsd_extractor s) seg None [u] (voxel_size s)) (\<lambda>lsds_u.
     let u_mask = eq_mask seg u;
         lsds_slice = Slice None None # to_slices roi in
     ebind (getitem (target_lsds s) lsds_slice) (\<lambda>target_view.
     ebind (np_sub (read_view (target_lsds s) target_view) lsds_u) (\<lambda>diff.
     ebind (setitem_chan_mask_scalar diff (np_logical_not u_mask) 0) (\<lambda>diff.
     ebind (getitem (lsds s) lsds_slice) (\<lambda>lsds_view.
     ebind (setitem_chan_mask (lsds s) lsds_view u_mask lsds_u) (\<lambda>lsds_new.
     Inr (np_sum (np_square diff), s\<lparr>lsds := lsds_new\<rparr>)))))))))"

definition merge_segmentation :: "state \<Rightarrow> int \<Rightarrow> int \<Rightarrow> error + state" where
  "merge_segmentation s u v =
     ebind (node_roi s u) (\<lambda>roi_u.
     ebind (getitem (segmentation s) (to_slices roi_u)) (\<lambda>segmentation_u.
     ebind (setitem_mask (segmentation s) segmentation_u
              (eq_mask (read_view (segmentation s) segmentation_u) u) v) (\<lambda>seg_new.
     Inr (s\<lparr>segmentation := seg_new\<rparr>))))"

definition merge_nodes :: "state \<Rightarrow> int \<Rightarrow> int \<Rightarrow> error + state" where
  "merge_nodes s0 u v =
     ebind (merge_segmentation s0 u v) (\<lambda>s.
     ebind (get_lsds_edge_rois s u v) (\<lambda>(change_roi, context_roi).
     ebind (getitem (segmentation s) (to_slices context_roi)) (\<lambda>seg_view.
     let seg = read_view (segmentation s) seg_view;
         lsds_slice = Slice None None # to_slices change_roi;
         change_in_context_roi = roi_sub change_roi (get_begin context_roi) in
     ebind (get_descriptors (lsd_extractor s) seg (Some change_in_context_roi) [v]
              (voxel_size s)) (\<lambda>lsds_merged.
     ebind (getitem seg (to_slices change_in_context_roi)) (\<lambda>change_view.
     let v_mask = eq_mask (read_view seg change_view) v in
     ebind (getitem (lsds s) lsds_slice) (\<lambda>lsds_view.
     ebind (setitem_chan_mask (lsds s) lsds_view v_mask lsds_merged) (\<lambda>lsds_new.
     let s = s\<lparr>lsds := lsds_new\<rparr> in
     ebind (node_roi s u) (\<lambda>roi_u.
     ebind (node_roi s v) (\<lambda>roi_v.
     ebind (set_node_roi s v (union_roi roi_u roi_v)) (\<lambda>s.
     ebind (node_score s v) (\<lambda>score_v.
     ebind (node_score s u) (\<lambda>score_u.
     ebind (edge_weight s u v) (\<lambda>w.
     set_node_score s v (score_v + score_u + w))))))))))))))"

definition compute_edge_score :: "state \<Rightarrow> int \<Rightarrow> int \<Rightarrow> error + real \<times> state" where
  "compute_edge_score s u v =
     ebind (get_lsds_edge_rois s u v) (\<lambda>(change_roi, context_roi).
     ebind (getitem (segmentation s) (to_slices context_roi)) (\<lambda>seg_view.
     let seg = np_array (read_view (segmentation s) seg_view);
         lsds_slice = Slice None None # to_slices change_roi;
         change_in_context_roi = roi_sub change_roi (get_begin context_roi) in
     ebind (getitem seg (to_slices change_in_context_roi)) (\<lambda>change_view.
     let not_uv_mask = np_logical_not (np_isin (read_view seg change_view) [u, v]) in
     ebind (getitem (lsds s) lsds_slice) (\<lambda>lsds_view.
     let lsds_separate = read_view (lsds s) lsds_view in
     ebind (getitem (target_lsds s) lsds_slice) (\<lambda>target_view.
     ebind (np_sub (read_view (target_lsds s) target_view) lsds_separate) (\<lambda>diff.
     ebind (setitem_chan_mask_scalar diff not_uv_mask 0) (\<lambda>diff.
     let score_separate = np_sum (np_square diff) in
     ebind (setitem_mask seg \<lparr>v_start = replicate (length (shape seg)) 0, v_shape = shape seg\<rparr>
              (eq_mask seg u) v) (\<lambda>seg.
     ebind (get_descriptors (lsd_extractor s) seg (Some change_in_context_roi) [v]
              (voxel_size s)) (\<lambda>lsds_merged.
     ebind (np_sub (read_view (target_lsds s) target_view) lsds_merged) (\<lambda>diff.
     ebind (setitem_chan_mask_scalar diff not_uv_mask 0) (\<lambda>diff.
     let score_merged = np_sum (np_square diff) in
     if shape lsds_separate \<noteq> shape lsds_merged then Inl ValueError
     else Inr (score_merged - score_separate, s))))))))))))"

definition score_merge :: "state \<Rightarrow> int \<Rightarrow> int \<Rightarrow> error + real \<times> state" where
  \<comment> \<open>the weight callback; the dictionary \<^verbatim>\<open>{'weight': weight}\<close> is its one entry\<close>
  "score_merge s u v = compute_edge_score s u v"

section \<open>Well-formed regions and configurations\<close>

text \<open>
  A region of an \<open>n\<close>-dimensional volume has \<open>n\<close> offsets and \<open>n\<close> extents, none of them
  negative in extent. A region with no negative offset lies where array indices are:
  slicing with it never counts from the end of an axis.
\<close>

definition wf_roi :: "nat \<Rightarrow> roi \<Rightarrow> bool" where
  "wf_roi n r =
     (length (roi_offset r) = n \<and> length (roi_shape r) = n \<and> list_all (\<lambda>x. 0 \<le> x) (roi_shape r))"

definition nonneg_roi :: "roi \<Rightarrow> bool" where
  "nonneg_roi r = list_all (\<lambda>x. 0 \<le> x) (roi_offset r)"

section \<open>A worked example\<close>

text \<open>
  A line of four voxels holding the fragments 1 and 2, one descriptor channel, and an
  extractor whose descriptor is 1 on the voxels of the requested labels and 0 elsewhere.
\<close>

definition of_list :: "'a list \<Rightarrow> 'a ndarray" where
  "of_list xs = \<lparr>shape = [int (length xs)], elems = (\<lambda>p. xs ! nat (hd p))\<rparr>"

definition indicator_extractor :: extractor where
  "indicator_extractor =
     \<lparr>get_context = [1], downsample = 1,
      get_descriptors = (\<lambda>seg r labels vs.
         Inr \<lparr>shape = 1 # (case r of None \<Rightarrow> shape seg | Some r \<Rightarrow> roi_shape r),
              elems = (\<lambda>q. if elems seg (map2 (+)
                                (case r of None \<Rightarrow> replicate (length (shape seg)) 0
                                 | Some r \<Rightarrow> roi_offset r) (tl q)) \<in> set labels
                            then 1 else 0)\<rparr>)\<rparr>"

definition ex_state :: state where
  "ex_state =
     \<lparr>segmentation = of_list [1, 1, 2, 2],
      lsds = \<lparr>shape = [1, 4], elems = (\<lambda>p. 1)\<rparr>,
      fragments = of_list [1, 1, 2, 2],
      target_lsds = \<lparr>shape = [1, 4], elems = (\<lambda>p. 3)\<rparr>,
      lsd_extractor = indicator_extractor,
      self_context = [1],
      voxel_size = [1],
      rag = \<lparr>node_ids = [1, 2],
             node = [1 \<mapsto> \<lparr>n_roi = Some \<lparr>roi_offset = [0], roi_shape = [2]\<rparr>,
                            n_score = Some 8, n_labels = Some [1]\<rparr>,
                     2 \<mapsto> \<lparr>n_roi = Some \<lparr>roi_offset = [2], roi_shape = [2]\<rparr>,
                            n_score = Some 8, n_labels = Some [2]\<rparr>],
             edge_ids = [(1, 2)],
             weight = [(1, 2) \<mapsto> 0]\<rparr>\<rparr>"

definition zero_context_state :: state where
  \<comment> \<open>the example with an extractor context of zero: the regions of the two fragments
      touch without overlapping\<close>
  "zero_context_state = ex_state\<lparr>self_context := [0]\<rparr>"

definition roi_within :: "roi \<Rightarrow> int list \<Rightarrow> bool" where
  \<comment> \<open>the region ends inside a volume of the given shape\<close>
  "roi_within r sh = list_all2 (\<lambda>e m. e \<le> m) (get_end r) sh"

definition wf_geometry :: "state \<Rightarrow> bool" where
  \<comment> \<open>one context radius and one voxel size per axis of the segmentation, radii not
      negative, voxel sizes positive\<close>
  "wf_geometry s =
     (length (self_context s) = length (shape (segmentation s)) \<and>
      length (voxel_size s) = length (shape (segmentation s)) \<and>
      list_all (\<lambda>c. 0 \<le> c) (self_context s) \<and>
      list_all (\<lambda>v. 0 < v) (voxel_size s) \<and>
      list_all (\<lambda>m. 0 \<le> m) (shape (segmentation s)))"

definition wf_volumes :: "state \<Rightarrow> bool" where
  \<comment> \<open>the live and the target descriptors have one shape: a channel axis, then the axes
      of the segmentation\<close>
  "wf_volumes s =
     (shape (lsds s) = shape (target_lsds s) \<and> shape (target_lsds s) \<noteq> [] \<and>
      tl (shape (target_lsds s)) = shape (segmentation s) \<and>
      list_all (\<lambda>m. 0 \<le> m) (shape (target_lsds s)))"

text \<open>
  The two regions \<open>get_lsds_edge_rois\<close> derives, written out for a context in voxels:
  \<open>change_region\<close> is the change region before it is grown, empty or not, and
  \<open>change_roi_of\<close> and \<open>context_roi_of\<close> are the two regions where no overlap on the way is
  empty.
\<close>

definition change_region :: "state \<Rightarrow> int list \<Rightarrow> roi \<Rightarrow> roi \<Rightarrow> roi option" where
  "change_region s ctx roi_u roi_v =
     region_intersect
       (region_intersect (intersect (grow roi_u ctx ctx) (total_roi s))
                         (intersect (grow roi_v ctx ctx) (total_roi s)))
       (Some (union_roi roi_u roi_v))"

definition change_roi_of :: "state \<Rightarrow> int list \<Rightarrow> roi \<Rightarrow> roi \<Rightarrow> roi" where
  "change_roi_of s ctx roi_u roi_v =
     overlap (overlap (overlap (grow roi_u ctx ctx) (total_roi s))
                      (overlap (grow roi_v ctx ctx) (total_roi s)))
             (union_roi roi_u roi_v)"

definition context_roi_of :: "state \<Rightarrow> int list \<Rightarrow> roi \<Rightarrow> roi \<Rightarrow> roi" where
  "context_roi_of s ctx roi_u roi_v =
     overlap (grow (change_roi_of s ctx roi_u roi_v) ctx ctx) (union_roi roi_u roi_v)"

definition wf_pair :: "state \<Rightarrow> int list \<Rightarrow> roi \<Rightarrow> roi \<Rightarrow> bool" where
  \<comment> \<open>two stored regions and a context in voxels that fit the segmentation's axes, and
      none of the overlaps that give the change region is empty\<close>
  "wf_pair s ctx roi_u roi_v =
     (wf_roi (length (shape (segmentation s))) roi_u \<and>
      wf_roi (length (shape (segmentation s))) roi_v \<and>
      length ctx = length (shape (segmentation s)) \<and>
      list_all (\<lambda>x. 0 \<le> x) ctx \<and>
      list_all (\<lambda>m. 0 \<le> m) (shape (segmentation s)) \<and>
      intersects (grow roi_u ctx ctx) (total_roi s) \<and>
      intersects (grow roi_v ctx ctx) (total_roi s) \<and>
      intersects (overlap (grow roi_u ctx ctx) (total_roi s))
                 (overlap (grow roi_v ctx ctx) (total_roi s)) \<and>
      intersects (overlap (overlap (grow roi_u ctx ctx) (total_roi s))
                          (overlap (grow roi_v ctx ctx) (total_roi s)))
                 (union_roi roi_u roi_v))"

definition relabel_in :: "int ndarray \<Rightarrow> roi \<Rightarrow> int \<Rightarrow> int \<Rightarrow> int ndarray" where
  \<comment> \<open>every voxel of the region that carries \<open>u\<close> now carries \<open>v\<close>\<close>
  "relabel_in seg r u v =
     seg\<lparr>elems := (\<lambda>q. if roi_contains r q \<and> in_range (shape seg) q \<and> elems seg q = u
                        then v else elems seg q)\<rparr>"

definition view_inside :: "view \<Rightarrow> int list \<Rightarrow> bool" where
  \<comment> \<open>the view lies inside an array of the given shape\<close>
  "view_inside vw sh =
     (length (v_start vw) = length sh \<and> length (v_shape vw) = length sh \<and>
      (\<forall>i<length sh. 0 \<le> v_start vw ! i \<and> v_start vw ! i + v_shape vw ! i \<le> sh ! i))"

section \<open>The scores in the words of the specification\<close>

definition masked_sq_error ::
  "int list \<Rightarrow> (int list \<Rightarrow> bool) \<Rightarrow> (int list \<Rightarrow> real) \<Rightarrow> (int list \<Rightarrow> real) \<Rightarrow> real" where
  \<comment> \<open>the sum, over the indices of a descriptor volume of shape \<open>sh\<close> that the mask selects,
      of the squared difference between target and descriptor\<close>
  "masked_sq_error sh m t d = sum_list (map (\<lambda>q. (t q - d q)\<^sup>2) (filter m (indices sh)))"

definition relabelled_slice :: "int ndarray \<Rightarrow> view \<Rightarrow> int \<Rightarrow> int \<Rightarrow> int ndarray" where
  \<comment> \<open>a copy of the slice of \<open>a\<close> that the view selects, with every \<open>u\<close> in it replaced
      by \<open>v\<close>\<close>
  "relabelled_slice a vw u v =
     \<lparr>shape = v_shape vw,
      elems = (\<lambda>p. if in_range (v_shape vw) p \<and> elems a (map2 (+) (v_start vw) p) = u then v
                   else elems a (map2 (+) (v_start vw) p))\<rparr>"

section \<open>Building the graph\<close>

text \<open>
  Modelled from the library's documentation: \<^verbatim>\<open>RAG(label_image, connectivity)\<close> belongs to
  scikit-image and \<^verbatim>\<open>find_objects\<close> to SciPy; neither is part of the sources. Every
  value of the label image is a node. Two distinct labels are joined by an edge when they
  occur on two voxels of the image that are neighbours; with connectivity \<open>k\<close> the
  neighbours of a voxel are the voxels that differ from it by one in at least one and at
  most \<open>k\<close> axes and by nothing in the others
  (\<^verbatim>\<open>scipy.ndimage.generate_binary_structure\<close>). A new node or edge carries no attribute.
  \<^verbatim>\<open>find_objects(mask)[0]\<close> is the bounding box of the voxels the mask selects, one
  \<^verbatim>\<open>slice(start, stop)\<close> per axis, and an \<open>IndexError\<close> when it selects none.
\<close>

fun offsets :: "nat \<Rightarrow> int list list" where
  "offsets 0 = [[]]"
| "offsets (Suc n) = concat (map (\<lambda>d. map ((#) d) (offsets n)) [-1, 0, 1])"

definition footprint :: "nat \<Rightarrow> nat \<Rightarrow> int list list" where
  "footprint n k = filter (\<lambda>d. sum_list (map abs d) \<le> int k) (offsets n)"

definition neighbour_labels :: "int ndarray \<Rightarrow> nat \<Rightarrow> (int \<times> int) list" where
  \<comment> \<open>the labels of every voxel and of each of its neighbours\<close>
  "neighbour_labels img k =
     concat (map (\<lambda>p. map (\<lambda>d. (elems img p, elems img (map2 (+) p d)))
                        (filter (\<lambda>d. in_range (shape img) (map2 (+) p d))
                                (footprint (length (shape img)) k)))
                 (indices (shape img)))"

definition RAG :: "int ndarray \<Rightarrow> nat \<Rightarrow> rag_graph" where
  "RAG img k =
     \<lparr>node_ids = remdups (map (elems img) (indices (shape img))),
      node = (\<lambda>u. if u \<in> set (map (elems img) (indices (shape img)))
                  then Some \<lparr>n_roi = None, n_score = None, n_labels = None\<rparr> else None),
      edge_ids = remdups (map (\<lambda>(a, b). ekey a b)
                            (filter (\<lambda>(a, b). a \<noteq> b) (neighbour_labels img k))),
      weight = Map.empty\<rparr>"

definition find_objects_first :: "bool ndarray \<Rightarrow> error + (int \<times> int) list" where
  "find_objects_first m =
     (case filter (elems m) (indices (shape m)) of
        [] \<Rightarrow> Inl IndexError
      | p # ps \<Rightarrow> Inr (fold (\<lambda>q bb. map2 (\<lambda>x (lo, hi). (min lo x, max hi (x + 1))) q bb) ps
                         (map (\<lambda>x. (x, x + 1)) p)))"

definition slice_to_roi :: "state \<Rightarrow> (int \<times> int) list \<Rightarrow> error + roi" where
  "slice_to_roi s slices =
     (let offset = map fst slices;
          shp = map (\<lambda>(start, stop). stop - start) slices;
          roi = \<lparr>roi_offset = offset, roi_shape = shp\<rparr>
      in snap_to_grid roi (replicate (dims roi) (downsample (lsd_extractor s))))"

definition initialize_node :: "state \<Rightarrow> int \<Rightarrow> error + state" where
  \<comment> \<open>the body of the loop over the nodes\<close>
  "initialize_node s u =
     ebind (find_objects_first (eq_mask (fragments s) u)) (\<lambda>bb.
     ebind (slice_to_roi s bb) (\<lambda>roi.
     ebind (set_node_roi s u roi) (\<lambda>s.
     ebind (compute_node_score s u) (\<lambda>(score, s).
     ebind (set_node_score s u score) (\<lambda>s.
     set_node_labels s u [u])))))"

fun initialize_nodes :: "state \<Rightarrow> int list \<Rightarrow> error + state" where
  "initialize_nodes s [] = Inr s"
| "initialize_nodes s (u # us) = ebind (initialize_node s u) (\<lambda>s. initialize_nodes s us)"

definition initialize_edge :: "state \<Rightarrow> int \<times> int \<Rightarrow> error + state" where
  \<comment> \<open>the body of the loop over the edges\<close>
  "initialize_edge s e =
     ebind (score_merge s (fst e) (snd e)) (\<lambda>(w, s).
     set_edge_weight s (fst e) (snd e) w)"

fun initialize_edges :: "state \<Rightarrow> (int \<times> int) list \<Rightarrow> error + state" where
  "initialize_edges s [] = Inr s"
| "initialize_edges s (e # es) = ebind (initialize_edge s e) (\<lambda>s. initialize_edges s es)"

definition initialize_rag :: "state \<Rightarrow> error + state" where
  "initialize_rag s0 =
     (let s = s0\<lparr>rag := RAG (fragments s0) 2\<rparr> in
      ebind (initialize_nodes s (node_ids (rag s))) (\<lambda>s.
      initialize_edges s (edge_ids (rag s))))"

definition init ::
  "int ndarray \<Rightarrow> real ndarray \<Rightarrow> extractor \<Rightarrow> int list option \<Rightarrow> error + state" where
  \<comment> \<open>the constructor \<^verbatim>\<open>__init__\<close>\<close>
  "init frags target ext vs =
     initialize_rag
       \<lparr>segmentation = np_array frags,
        lsds = np_zeros_like target,
        fragments = frags,
        target_lsds = target,
        lsd_extractor = ext,
        self_context = get_context ext,
        voxel_size = (case vs of None \<Rightarrow> replicate (length (shape frags)) 1 | Some v \<Rightarrow> v),
        rag = \<lparr>node_ids = [], node = Map.empty, edge_ids = [], weight = Map.empty\<rparr>\<rparr>"



section \<open>What initialization leaves alone\<close>

definition same_setup :: "state \<Rightarrow> state \<Rightarrow> bool" where
  \<comment> \<open>the two states differ at most in the contents of the live descriptors and in the
      attributes of nodes and edges\<close>
  "same_setup s s' =
     (segmentation s' = segmentation s \<and> fragments s' = fragments s \<and>
      target_lsds s' = target_lsds s \<and> lsd_extractor s' = lsd_extractor s \<and>
      self_context s' = self_context s \<and> voxel_size s' = voxel_size s \<and>
      shape (lsds s') = shape (lsds s) \<and>
      node_ids (rag s') = node_ids (rag s) \<and> edge_ids (rag s') = edge_ids (rag s) \<and>
      dom (node (rag s')) = dom (node (rag s)))"

definition voxels_of :: "int ndarray \<Rightarrow> int \<Rightarrow> int list list" where
  \<comment> \<open>the voxels of the volume that carry the label\<close>
  "voxels_of img u = filter (\<lambda>p. elems img p = u) (indices (shape img))"

definition tight_bounding_box :: "int ndarray \<Rightarrow> int \<Rightarrow> roi" where
  \<comment> \<open>per axis, from the least coordinate of a voxel of the label to one past the greatest\<close>
  "tight_bounding_box img u =
     \<lparr>roi_offset = map (\<lambda>i. Min (set (map (\<lambda>p. p ! i) (voxels_of img u))))
                        [0..<length (shape img)],
      roi_shape = map (\<lambda>i. Max (set (map (\<lambda>p. p ! i) (voxels_of img u))) + 1
                            - Min (set (map (\<lambda>p. p ! i) (voxels_of img u))))
                       [0..<length (shape img)]\<rparr>"




definition good_region :: "state \<Rightarrow> int \<Rightarrow> roi \<Rightarrow> bool" where
  \<comment> \<open>a well-formed region of non-negative offsets that bounds every voxel of the label\<close>
  "good_region s u r =
     (wf_roi (length (shape (segmentation s))) r \<and> nonneg_roi r \<and>
      (\<forall>p. in_range (shape (segmentation s)) p \<and> elems (segmentation s) p = u
           \<longrightarrow> roi_contains r p))"

section \<open>Runs of the agglomerator\<close>

text \<open>
  Modelled from the spec: the scheduler \<^verbatim>\<open>merge_hierarchical\<close> that \<^verbatim>\<open>merge_until\<close> hands the
  two callbacks to is imported from \<^verbatim>\<open>graph_merge\<close> and is not part of the sources. Of its
  contract only this is used: it pops an edge \<open>(u, v)\<close>, discards it when \<open>u\<close> or \<open>v\<close> is no
  longer a surviving node, and otherwise calls the merge callback, which absorbs \<open>u\<close> into
  \<open>v\<close>; \<open>u\<close> survives no longer. An edge joins two distinct nodes. After a merge the
  scheduler moves the edges of \<open>u\<close> to \<open>v\<close> and stores the weights that the weight callback
  returns: it changes the edges and their weights, and no attribute of a surviving node.
  A state is paired with the set of its surviving nodes.
\<close>

inductive reachable :: "state \<Rightarrow> int set \<Rightarrow> bool" where
  constructed:
    "init frags target ext vs = Inr s \<Longrightarrow> reachable s (set (node_ids (rag s)))"
| merged:
    "reachable s live \<Longrightarrow> u \<in> live \<Longrightarrow> v \<in> live \<Longrightarrow> u \<noteq> v \<Longrightarrow>
     merge_nodes s u v = Inr s' \<Longrightarrow> reachable s' (live - {u})"
| rewired:
    "reachable s live \<Longrightarrow>
     reachable (s\<lparr>rag := (rag s)\<lparr>edge_ids := es, weight := w\<rparr>\<rparr>) live"




section \<open>Auxiliary facts\<close>

lemmas roi_defs =
  intersect_def overlap_def region_intersect_def region_grow_def intersects_def grow_def separated_def roi_empty_def get_begin_def get_end_def
  from_begin_end_def union_roi_def dims_def roi_sub_def to_slices_def

lemmas array_defs =
  getitem_def clip_index_def setitem_mask_def setitem_chan_mask_def setitem_chan_mask_scalar_def
  eq_mask_def read_view_def np_sub_def np_square_def np_sum_def np_isin_def np_logical_not_def
  np_array_def in_view_def rel_index_def in_range_def

lemmas graph_defs =
  node_roi_def node_score_def edge_weight_def has_edge_def ekey_def set_node_roi_def
  set_node_score_def set_node_labels_def set_edge_weight_def

lemmas ex_defs = ex_state_def of_list_def indicator_extractor_def

lemma ebind_Inr_iff: "ebind m f = Inr y \<longleftrightarrow> (\<exists>x. m = Inr x \<and> f x = Inr y)"
  by (cases m) auto


lemma succeeds_iff: "succeeds m \<longleftrightarrow> (\<exists>x. m = Inr x)"
  by (cases m) auto

subsection \<open>The graph attributes\<close>

lemma set_node_roi_score: "set_node_roi s v r = Inr s' \<Longrightarrow> node_score s' w = node_score s w"
  by (auto simp: set_node_roi_def node_score_def split: option.splits if_splits)

lemma set_node_roi_weight:
  "set_node_roi s v r = Inr s' \<Longrightarrow> edge_weight s' a b = edge_weight s a b"
  by (auto simp: set_node_roi_def edge_weight_def has_edge_def split: option.splits)

lemma set_node_score_score: "set_node_score s v x = Inr s' \<Longrightarrow> node_score s' v = Inr x"
  by (auto simp: set_node_score_def node_score_def split: option.splits)

lemma merge_segmentation_rag: "merge_segmentation s u v = Inr s' \<Longrightarrow> rag s' = rag s"
  by (auto simp: merge_segmentation_def ebind_Inr_iff)

lemma node_score_cong: "rag s' = rag s \<Longrightarrow> node_score s' w = node_score s w"
  by (simp add: node_score_def)

lemma edge_weight_cong: "rag s' = rag s \<Longrightarrow> edge_weight s' a b = edge_weight s a b"
  by (simp add: edge_weight_def)

section \<open>Region geometry: the voxels of a region\<close>

lemma wf_roi_nth:
  "wf_roi n r \<longleftrightarrow> length (roi_offset r) = n \<and> length (roi_shape r) = n \<and> (\<forall>i<n. 0 \<le> roi_shape r ! i)"
  by (auto simp: wf_roi_def list_all_length)

lemma nonneg_roi_nth: "nonneg_roi r \<longleftrightarrow> (\<forall>i<length (roi_offset r). 0 \<le> roi_offset r ! i)"
  by (simp add: nonneg_roi_def list_all_length)

lemma get_end_nth:
  "i < length (roi_offset r) \<Longrightarrow> i < length (roi_shape r) \<Longrightarrow> get_end r ! i = roi_offset r ! i + roi_shape r ! i"
  by (simp add: get_end_def)

lemma length_get_end [simp]: "length (get_end r) = min (length (roi_offset r)) (length (roi_shape r))"
  by (simp add: get_end_def)

lemma length_get_begin [simp]: "length (get_begin r) = length (roi_offset r)"
  by (simp add: get_begin_def)

lemma roi_contains_iff:
  assumes "length (roi_offset r) = n" "length (roi_shape r) = n"
  shows "roi_contains r p \<longleftrightarrow>
         length p = n \<and> (\<forall>i<n. roi_offset r ! i \<le> p ! i \<and> p ! i < roi_offset r ! i + roi_shape r ! i)"
  using assms
  by (auto simp: roi_contains_def dims_def list_all2_conv_all_nth get_begin_def get_end_def)

lemma roi_empty_iff: "roi_empty r \<longleftrightarrow> (\<exists>i<length (roi_shape r). roi_shape r ! i = 0)"
  by (auto simp: roi_empty_def prod_list_zero_iff in_set_conv_nth)

lemma separated_iff:
  assumes "length (roi_offset a) = n" "length (roi_shape a) = n"
          "length (roi_offset b) = n" "length (roi_shape b) = n"
  shows "separated a b \<longleftrightarrow>
         (\<exists>i<n. roi_offset a ! i \<ge> roi_offset b ! i + roi_shape b ! i \<or>
                 roi_offset b ! i \<ge> roi_offset a ! i + roi_shape a ! i)"
  using assms
  by (auto simp: separated_def list_ex_length get_begin_def get_end_def)

lemma overlap_offset_shape:
  assumes "length (roi_offset a) = n" "length (roi_shape a) = n"
          "length (roi_offset b) = n" "length (roi_shape b) = n"
  shows "length (roi_offset (overlap a b)) = n" "length (roi_shape (overlap a b)) = n"
  using assms by (auto simp: overlap_def from_begin_end_def)

lemma overlap_nth:
  assumes "length (roi_offset a) = n" "length (roi_shape a) = n"
          "length (roi_offset b) = n" "length (roi_shape b) = n" "i < n"
  shows "roi_offset (overlap a b) ! i = max (roi_offset a ! i) (roi_offset b ! i)"
    "roi_shape (overlap a b) ! i =
       min (roi_offset a ! i + roi_shape a ! i) (roi_offset b ! i + roi_shape b ! i)
       - max (roi_offset a ! i) (roi_offset b ! i)"
  using assms by (auto simp: overlap_def from_begin_end_def get_begin_def get_end_def)

lemma intersect_Some: "intersect a b = Some r \<longleftrightarrow> intersects a b \<and> r = overlap a b"
  by (auto simp: intersect_def)

lemma intersect_None: "intersect a b = None \<longleftrightarrow> \<not> intersects a b"
  by (simp add: intersect_def)

lemma roi_contains_overlap:
  assumes "length (roi_offset a) = n" "length (roi_shape a) = n"
          "length (roi_offset b) = n" "length (roi_shape b) = n"
  shows "roi_contains (overlap a b) p \<longleftrightarrow> roi_contains a p \<and> roi_contains b p"
  unfolding roi_contains_iff [OF overlap_offset_shape [OF assms]]
    roi_contains_iff [OF assms(1,2)] roi_contains_iff [OF assms(3,4)]
  using overlap_nth [OF assms] by auto

lemma grow_lengths:
  assumes "length (roi_offset r) = n" "length (roi_shape r) = n" "length c = n"
  shows "length (roi_offset (grow r c c)) = n" "length (roi_shape (grow r c c)) = n"
  using assms by (auto simp: grow_def)

lemma grow_nth:
  assumes "length (roi_offset r) = n" "length (roi_shape r) = n" "length c = n" "i < n"
  shows "roi_offset (grow r c c) ! i = roi_offset r ! i - c ! i"
    "roi_shape (grow r c c) ! i = roi_shape r ! i + c ! i + c ! i"
  using assms by (auto simp: grow_def)

lemma wf_roi_grow:
  assumes "wf_roi n r" "length c = n" "list_all (\<lambda>x. 0 \<le> x) c"
  shows "wf_roi n (grow r c c)"
  using assms unfolding wf_roi_nth
  by (auto simp: grow_lengths grow_nth list_all_length)

lemma union_lengths:
  assumes "length (roi_offset a) = n" "length (roi_shape a) = n"
          "length (roi_offset b) = n" "length (roi_shape b) = n"
  shows "length (roi_offset (union_roi a b)) = n" "length (roi_shape (union_roi a b)) = n"
  using assms by (auto simp: union_roi_def from_begin_end_def)

lemma union_nth:
  assumes "length (roi_offset a) = n" "length (roi_shape a) = n"
          "length (roi_offset b) = n" "length (roi_shape b) = n" "i < n"
  shows "roi_offset (union_roi a b) ! i = min (roi_offset a ! i) (roi_offset b ! i)"
    "roi_shape (union_roi a b) ! i =
       max (roi_offset a ! i + roi_shape a ! i) (roi_offset b ! i + roi_shape b ! i)
       - min (roi_offset a ! i) (roi_offset b ! i)"
  using assms by (auto simp: union_roi_def from_begin_end_def get_begin_def get_end_def)

lemma wf_roi_union:
  assumes "wf_roi n a" "wf_roi n b"
  shows "wf_roi n (union_roi a b)"
proof -
  from assms have l: "length (roi_offset a) = n" "length (roi_shape a) = n"
          "length (roi_offset b) = n" "length (roi_shape b) = n"
    by (auto simp: wf_roi_nth)
  from assms have s: "\<And>i. i < n \<Longrightarrow> 0 \<le> roi_shape a ! i" "\<And>i. i < n \<Longrightarrow> 0 \<le> roi_shape b ! i"
    by (auto simp: wf_roi_nth)
  have "0 \<le> roi_shape (union_roi a b) ! i" if "i < n" for i
    using union_nth(2) [OF l that] s [OF that] by linarith
  then show ?thesis
    unfolding wf_roi_nth [of n "union_roi a b"]
    using union_lengths [OF l] by blast
qed

lemma nonneg_roi_union:
  assumes "wf_roi n a" "wf_roi n b" "nonneg_roi a" "nonneg_roi b"
  shows "nonneg_roi (union_roi a b)"
proof -
  from assms have l: "length (roi_offset a) = n" "length (roi_shape a) = n"
          "length (roi_offset b) = n" "length (roi_shape b) = n"
    by (auto simp: wf_roi_nth)
  from assms l have s: "\<And>i. i < n \<Longrightarrow> 0 \<le> roi_offset a ! i" "\<And>i. i < n \<Longrightarrow> 0 \<le> roi_offset b ! i"
    by (auto simp: nonneg_roi_nth)
  have "0 \<le> roi_offset (union_roi a b) ! i" if "i < n" for i
    using union_nth(1) [OF l that] s [OF that] by linarith
  then show ?thesis
    unfolding nonneg_roi_nth [of "union_roi a b"]
    using union_lengths [OF l] by simp
qed

lemma roi_contains_union:
  assumes "wf_roi n a" "wf_roi n b" "roi_contains a p \<or> roi_contains b p"
  shows "roi_contains (union_roi a b) p"
proof -
  from assms have l: "length (roi_offset a) = n" "length (roi_shape a) = n"
          "length (roi_offset b) = n" "length (roi_shape b) = n"
    by (auto simp: wf_roi_nth)
  from assms(3) show ?thesis
    unfolding roi_contains_iff [OF union_lengths [OF l]]
      roi_contains_iff [OF l(1,2)] roi_contains_iff [OF l(3,4)]
    using union_nth [OF l] by auto
qed

lemma roi_contains_grow:
  assumes "wf_roi n r" "length c = n" "list_all (\<lambda>x. 0 \<le> x) c" "roi_contains r p"
  shows "roi_contains (grow r c c) p"
proof -
  from assms have l: "length (roi_offset r) = n" "length (roi_shape r) = n"
    by (auto simp: wf_roi_nth)
  from assms(4) show ?thesis
    unfolding roi_contains_iff [OF grow_lengths [OF l assms(2)]] roi_contains_iff [OF l]
    using grow_nth [OF l assms(2)] assms(3) by (auto simp: list_all_length assms(2)) force+
qed

lemma intersects_pos:
  assumes "wf_roi n a" "wf_roi n b" "intersects a b" "i < n"
  shows "max (roi_offset a ! i) (roi_offset b ! i)
         < min (roi_offset a ! i + roi_shape a ! i) (roi_offset b ! i + roi_shape b ! i)"
proof -
  from assms have l: "length (roi_offset a) = n" "length (roi_shape a) = n"
          "length (roi_offset b) = n" "length (roi_shape b) = n"
    by (auto simp: wf_roi_nth)
  from assms have "roi_shape a ! i \<noteq> 0" "roi_shape b ! i \<noteq> 0"
    by (auto simp: intersects_def roi_empty_iff wf_roi_nth)
  moreover from assms have "0 \<le> roi_shape a ! i" "0 \<le> roi_shape b ! i"
    by (auto simp: wf_roi_nth)
  moreover from assms have "\<not> roi_offset a ! i \<ge> roi_offset b ! i + roi_shape b ! i"
     "\<not> roi_offset b ! i \<ge> roi_offset a ! i + roi_shape a ! i"
    using separated_iff [OF l] by (auto simp: intersects_def)
  ultimately show ?thesis by auto
qed

lemma wf_roi_overlap:
  assumes "wf_roi n a" "wf_roi n b" "intersects a b"
  shows "wf_roi n (overlap a b)"
proof -
  from assms have l: "length (roi_offset a) = n" "length (roi_shape a) = n"
          "length (roi_offset b) = n" "length (roi_shape b) = n"
    by (auto simp: wf_roi_nth)
  have "0 \<le> roi_shape (overlap a b) ! i" if "i < n" for i
    using overlap_nth(2) [OF l that] intersects_pos [OF assms that] by linarith
  then show ?thesis
    unfolding wf_roi_nth [of n "overlap a b"]
    using overlap_offset_shape [OF l] by blast
qed

lemma overlap_nonempty:
  assumes "wf_roi n a" "wf_roi n b" "intersects a b"
  shows "\<not> roi_empty (overlap a b)"
proof -
  from assms have l: "length (roi_offset a) = n" "length (roi_shape a) = n"
          "length (roi_offset b) = n" "length (roi_shape b) = n"
    by (auto simp: wf_roi_nth)
  have "0 < roi_shape (overlap a b) ! i" if "i < n" for i
    using overlap_nth(2) [OF l that] intersects_pos [OF assms that] by linarith
  then show ?thesis
    unfolding roi_empty_iff using overlap_offset_shape(2) [OF l] by fastforce
qed

lemma nonneg_roi_overlap:
  assumes "wf_roi n a" "wf_roi n b" "nonneg_roi a \<or> nonneg_roi b"
  shows "nonneg_roi (overlap a b)"
proof -
  from assms have l: "length (roi_offset a) = n" "length (roi_shape a) = n"
          "length (roi_offset b) = n" "length (roi_shape b) = n"
    by (auto simp: wf_roi_nth)
  from assms(3) l have s: "(\<forall>i<n. 0 \<le> roi_offset a ! i) \<or> (\<forall>i<n. 0 \<le> roi_offset b ! i)"
    by (auto simp: nonneg_roi_nth)
  have "0 \<le> roi_offset (overlap a b) ! i" if "i < n" for i
    using overlap_nth(1) [OF l that] s that by fastforce
  then show ?thesis
    unfolding nonneg_roi_nth [of "overlap a b"]
    using overlap_offset_shape [OF l] by simp
qed

section \<open>Views selected by regions\<close>

lemma basic_index_same_length:
  "length sh = length sl \<Longrightarrow>
   basic_index sh sl =
     Inr (map2 (\<lambda>n s. (fst (slice_indices s n), max 0 (snd (slice_indices s n) - fst (slice_indices s n)))) sh sl)"
  by (induction sh sl rule: list_induct2) auto

lemma length_to_slices [simp]:
  "length (to_slices r) = min (length (roi_offset r)) (length (roi_shape r))"
  by (simp add: to_slices_def)

lemma to_slices_nth:
  "i < length (roi_offset r) \<Longrightarrow> i < length (roi_shape r) \<Longrightarrow>
   to_slices r ! i = Slice (Some (roi_offset r ! i)) (Some (roi_offset r ! i + roi_shape r ! i))"
  by (simp add: to_slices_def get_begin_def get_end_def)

text \<open>The view that slicing with a region of non-negative offsets selects.\<close>

lemma getitem_roi:
  assumes "length (shape a) = n" "wf_roi n r" "nonneg_roi r"
  shows "\<exists>vw. getitem a (to_slices r) = Inr vw \<and> length (v_start vw) = n \<and> length (v_shape vw) = n \<and>
           (\<forall>i<n. v_start vw ! i = min (roi_offset r ! i) (shape a ! i) \<and>
                   v_shape vw ! i = max 0 (min (roi_offset r ! i + roi_shape r ! i) (shape a ! i)
                                           - min (roi_offset r ! i) (shape a ! i)))"
proof -
  from assms have l: "length (roi_offset r) = n" "length (roi_shape r) = n"
    and s: "\<And>i. i < n \<Longrightarrow> 0 \<le> roi_shape r ! i" and o: "\<And>i. i < n \<Longrightarrow> 0 \<le> roi_offset r ! i"
    by (auto simp: wf_roi_nth nonneg_roi_nth)
  have len: "length (shape a) = length (to_slices r)" using assms(1) l by simp
  define bs where "bs = map2 (\<lambda>n s. (fst (slice_indices s n),
      max 0 (snd (slice_indices s n) - fst (slice_indices s n)))) (shape a) (to_slices r)"
  have g: "getitem a (to_slices r) = Inr \<lparr>v_start = map fst bs, v_shape = map snd bs\<rparr>"
    unfolding getitem_def basic_index_same_length [OF len] bs_def by simp
  have lb: "length bs = n" unfolding bs_def using assms(1) l by simp
  have "fst (bs ! i) = min (roi_offset r ! i) (shape a ! i) \<and>
        snd (bs ! i) = max 0 (min (roi_offset r ! i + roi_shape r ! i) (shape a ! i)
                                           - min (roi_offset r ! i) (shape a ! i))"
    if "i < n" for i
    unfolding bs_def using that l assms(1) s [OF that] o [OF that]
    by (simp add: to_slices_nth clip_index_def)
  with g lb show ?thesis by simp
qed

lemma in_view_iff:
  assumes "length (v_start vw) = n" "length (v_shape vw) = n"
  shows "in_view vw q \<longleftrightarrow>
         length q = n \<and> (\<forall>i<n. v_start vw ! i \<le> q ! i \<and> q ! i < v_start vw ! i + v_shape vw ! i)"
  using assms
  by (auto simp: in_view_def in_range_def rel_index_def list_all2_conv_all_nth)

lemma in_range_iff:
  "in_range sh p \<longleftrightarrow> length p = length sh \<and> (\<forall>i<length sh. 0 \<le> p ! i \<and> p ! i < sh ! i)"
  by (auto simp: in_range_def list_all2_conv_all_nth)

lemma in_view_roi:
  assumes "length (shape a) = n" "wf_roi n r" "nonneg_roi r" "getitem a (to_slices r) = Inr vw"
  shows "in_view vw q \<longleftrightarrow> roi_contains r q \<and> in_range (shape a) q"
proof -
  from assms have l: "length (roi_offset r) = n" "length (roi_shape r) = n"
    and s: "\<And>i. i < n \<Longrightarrow> 0 \<le> roi_shape r ! i" and o: "\<And>i. i < n \<Longrightarrow> 0 \<le> roi_offset r ! i"
    by (auto simp: wf_roi_nth nonneg_roi_nth)
  from getitem_roi [OF assms(1-3)] assms(4) have v: "length (v_start vw) = n" "length (v_shape vw) = n"
    and vi: "\<And>i. i < n \<Longrightarrow> v_start vw ! i = min (roi_offset r ! i) (shape a ! i)"
       "\<And>i. i < n \<Longrightarrow> v_shape vw ! i = max 0 (min (roi_offset r ! i + roi_shape r ! i) (shape a ! i)
                                           - min (roi_offset r ! i) (shape a ! i))"
    by auto
  have per: "(v_start vw ! i \<le> q ! i \<and> q ! i < v_start vw ! i + v_shape vw ! i) \<longleftrightarrow>
             (roi_offset r ! i \<le> q ! i \<and> q ! i < roi_offset r ! i + roi_shape r ! i) \<and>
             (0 \<le> q ! i \<and> q ! i < shape a ! i)" if "i < n" for i
    using vi [OF that] s [OF that] o [OF that] by (auto simp: min_def max_def split: if_splits)
  show ?thesis
    unfolding in_view_iff [OF v] roi_contains_iff [OF l] in_range_iff assms(1)
    using per by auto
qed

lemma abs_rel_index:
  "length q = length (v_start vw) \<Longrightarrow> map2 (+) (v_start vw) (rel_index vw q) = q"
  by (auto simp: rel_index_def list_eq_iff_nth_eq)

section \<open>Regions inside the volume\<close>

lemma context_in_voxels_ok:
  "length cs = length vs \<Longrightarrow> list_all (\<lambda>v. 0 < v) vs \<Longrightarrow>
   context_in_voxels cs vs = Inr (map2 (\<lambda>c v. \<lceil>c / of_int v\<rceil>) cs vs)"
  by (induction cs vs rule: list_induct2) auto

lemma context_in_voxels_nonneg:
  assumes "length cs = length vs" "list_all (\<lambda>v. 0 < v) vs" "list_all (\<lambda>c. 0 \<le> c) cs"
  shows "list_all (\<lambda>x. 0 \<le> x) (map2 (\<lambda>c v. \<lceil>c / of_int v\<rceil>) cs vs)"
  using assms
proof (induction cs vs rule: list_induct2)
  case Nil
  then show ?case by simp
next
  case (Cons c cs v vs)
  then have "0 \<le> c / of_int v" by simp
  then have "0 \<le> \<lceil>c / of_int v\<rceil>" by (simp add: ceiling_le_iff)
  with Cons show ?case by simp
qed

lemma roi_within_iff:
  assumes "length (roi_offset r) = n" "length (roi_shape r) = n" "length sh = n"
  shows "roi_within r sh \<longleftrightarrow> (\<forall>i<n. roi_offset r ! i + roi_shape r ! i \<le> sh ! i)"
  using assms by (auto simp: roi_within_def list_all2_conv_all_nth get_end_def)

lemma total_roi_props:
  assumes "list_all (\<lambda>m. 0 \<le> m) (shape (segmentation s))"
  shows "wf_roi (length (shape (segmentation s))) (total_roi s)" "nonneg_roi (total_roi s)"
    "roi_within (total_roi s) (shape (segmentation s))"
  using assms
  by (auto simp: total_roi_def wf_roi_def nonneg_roi_def roi_within_def get_end_def
      list_all_length list_all2_conv_all_nth)

lemma roi_contains_total:
  "roi_contains (total_roi s) p \<longleftrightarrow> in_range (shape (segmentation s)) p"
proof -
  have l: "length (roi_offset (total_roi s)) = length (shape (segmentation s))"
    "length (roi_shape (total_roi s)) = length (shape (segmentation s))"
    by (simp_all add: total_roi_def)
  show ?thesis
    unfolding roi_contains_iff [OF l] in_range_iff by (auto simp: total_roi_def)
qed

lemma roi_within_overlap:
  assumes "wf_roi n a" "wf_roi n b" "length sh = n" "roi_within a sh \<or> roi_within b sh"
  shows "roi_within (overlap a b) sh"
proof -
  from assms have l: "length (roi_offset a) = n" "length (roi_shape a) = n"
          "length (roi_offset b) = n" "length (roi_shape b) = n"
    by (auto simp: wf_roi_nth)
  from assms(4) have w: "(\<forall>i<n. roi_offset a ! i + roi_shape a ! i \<le> sh ! i) \<or>
     (\<forall>i<n. roi_offset b ! i + roi_shape b ! i \<le> sh ! i)"
    using roi_within_iff [OF l(1,2) assms(3)] roi_within_iff [OF l(3,4) assms(3)] by blast
  have "roi_offset (overlap a b) ! i + roi_shape (overlap a b) ! i \<le> sh ! i" if "i < n" for i
    using overlap_nth [OF l that] w that by fastforce
  then show ?thesis
    using roi_within_iff [OF overlap_offset_shape [OF l] assms(3)] by blast
qed

text \<open>Slicing with a region inside the array selects exactly the region.\<close>

lemma getitem_roi_within:
  assumes "length (shape a) = n" "wf_roi n r" "nonneg_roi r" "roi_within r (shape a)"
  shows "getitem a (to_slices r) = Inr \<lparr>v_start = roi_offset r, v_shape = roi_shape r\<rparr>"
proof -
  from assms have l: "length (roi_offset r) = n" "length (roi_shape r) = n"
    and s: "\<And>i. i < n \<Longrightarrow> 0 \<le> roi_shape r ! i" and o: "\<And>i. i < n \<Longrightarrow> 0 \<le> roi_offset r ! i"
    by (auto simp: wf_roi_nth nonneg_roi_nth)
  from assms(4) have w: "\<And>i. i < n \<Longrightarrow> roi_offset r ! i + roi_shape r ! i \<le> shape a ! i"
    using roi_within_iff [OF l assms(1)] by blast
  from getitem_roi [OF assms(1-3)] obtain vw where
    g: "getitem a (to_slices r) = Inr vw" and v: "length (v_start vw) = n" "length (v_shape vw) = n"
    and vi: "\<And>i. i < n \<Longrightarrow> v_start vw ! i = min (roi_offset r ! i) (shape a ! i)"
       "\<And>i. i < n \<Longrightarrow> v_shape vw ! i = max 0 (min (roi_offset r ! i + roi_shape r ! i) (shape a ! i)
                                           - min (roi_offset r ! i) (shape a ! i))"
    by auto
  have "v_start vw = roi_offset r"
  proof (intro nth_equalityI)
    show "length (v_start vw) = length (roi_offset r)" using v l by simp
    fix i assume "i < length (v_start vw)"
    then have i: "i < n" using v by simp
    show "v_start vw ! i = roi_offset r ! i"
      using vi(1) [OF i] s [OF i] w [OF i] by (auto simp: min_def)
  qed
  moreover have "v_shape vw = roi_shape r"
  proof (intro nth_equalityI)
    show "length (v_shape vw) = length (roi_shape r)" using v l by simp
    fix i assume "i < length (v_shape vw)"
    then have i: "i < n" using v by simp
    show "v_shape vw ! i = roi_shape r ! i"
      using vi(2) [OF i] s [OF i] w [OF i] by (auto simp: min_def max_def)
  qed
  ultimately show ?thesis using g by simp
qed

section \<open>The change region and the context region\<close>

lemma wf_geometry_context:
  assumes "wf_geometry s"
  shows "\<exists>ctx. context_in_voxels (self_context s) (voxel_size s) = Inr ctx \<and>
           length ctx = length (shape (segmentation s)) \<and> list_all (\<lambda>x. 0 \<le> x) ctx"
proof -
  from assms have l: "length (self_context s) = length (voxel_size s)"
    and p: "list_all (\<lambda>v. 0 < v) (voxel_size s)" and c: "list_all (\<lambda>c. 0 \<le> c) (self_context s)"
    and n: "length (voxel_size s) = length (shape (segmentation s))"
    by (auto simp: wf_geometry_def)
  show ?thesis
    using context_in_voxels_ok [OF l p] context_in_voxels_nonneg [OF l p c] l n by simp
qed

lemma wf_roi_nonempty_pos:
  assumes "wf_roi n r" "\<not> roi_empty r" "i < n"
  shows "0 < roi_shape r ! i"
  using assms by (force simp: wf_roi_nth roi_empty_iff)

lemma wf_roi_lengths: "wf_roi n r \<Longrightarrow> length (roi_offset r) = n \<and> length (roi_shape r) = n"
  by (simp add: wf_roi_def)

lemma roi_contains_overlap_wf:
  assumes "wf_roi n a" "wf_roi n b"
  shows "roi_contains (overlap a b) p \<longleftrightarrow> roi_contains a p \<and> roi_contains b p"
  using roi_contains_overlap [of a n b p] assms by (simp add: wf_roi_def)

lemma wf_pair_grown:
  assumes "wf_pair s ctx ru rv"
  defines "n \<equiv> length (shape (segmentation s))"
  shows "wf_roi n (overlap (grow ru ctx ctx) (total_roi s))"
    "nonneg_roi (overlap (grow ru ctx ctx) (total_roi s))"
    "roi_within (overlap (grow ru ctx ctx) (total_roi s)) (shape (segmentation s))"
    "wf_roi n (overlap (grow rv ctx ctx) (total_roi s))"
    "nonneg_roi (overlap (grow rv ctx ctx) (total_roi s))"
    "roi_within (overlap (grow rv ctx ctx) (total_roi s)) (shape (segmentation s))"
proof -
  from assms have w: "wf_roi n ru" "wf_roi n rv" and c: "length ctx = n" "list_all (\<lambda>x. 0 \<le> x) ctx"
    and sh: "list_all (\<lambda>m. 0 \<le> m) (shape (segmentation s))"
    and i: "intersects (grow ru ctx ctx) (total_roi s)" "intersects (grow rv ctx ctx) (total_roi s)"
    by (auto simp: wf_pair_def)
  note t = total_roi_props [OF sh, folded n_def]
  note gu = wf_roi_grow [OF w(1) c]
  note gv = wf_roi_grow [OF w(2) c]
  show "wf_roi n (overlap (grow ru ctx ctx) (total_roi s))" by (rule wf_roi_overlap [OF gu t(1) i(1)])
  show "wf_roi n (overlap (grow rv ctx ctx) (total_roi s))" by (rule wf_roi_overlap [OF gv t(1) i(2)])
  show "nonneg_roi (overlap (grow ru ctx ctx) (total_roi s))"
    using nonneg_roi_overlap [OF gu t(1)] t(2) by blast
  show "nonneg_roi (overlap (grow rv ctx ctx) (total_roi s))"
    using nonneg_roi_overlap [OF gv t(1)] t(2) by blast
  show "roi_within (overlap (grow ru ctx ctx) (total_roi s)) (shape (segmentation s))"
    using roi_within_overlap [OF gu t(1)] t(3) n_def by blast
  show "roi_within (overlap (grow rv ctx ctx) (total_roi s)) (shape (segmentation s))"
    using roi_within_overlap [OF gv t(1)] t(3) n_def by blast
qed

lemma change_roi_wf:
  assumes "wf_pair s ctx ru rv"
  shows "wf_roi (length (shape (segmentation s))) (change_roi_of s ctx ru rv)"
    "nonneg_roi (change_roi_of s ctx ru rv)"
    "roi_within (change_roi_of s ctx ru rv) (shape (segmentation s))"
    "\<not> roi_empty (change_roi_of s ctx ru rv)"
proof -
  let ?n = "length (shape (segmentation s))"
  let ?x = "overlap (overlap (grow ru ctx ctx) (total_roi s))
                    (overlap (grow rv ctx ctx) (total_roi s))"
  from assms have w: "wf_roi ?n ru" "wf_roi ?n rv"
    and i3: "intersects (overlap (grow ru ctx ctx) (total_roi s))
                        (overlap (grow rv ctx ctx) (total_roi s))"
    and i4: "intersects ?x (union_roi ru rv)"
    by (auto simp: wf_pair_def)
  note g = wf_pair_grown [OF assms]
  note x = wf_roi_overlap [OF g(1) g(4) i3]
  have xn: "nonneg_roi ?x"
    using nonneg_roi_overlap [OF g(1) g(4)] g(2) by blast
  have xw: "roi_within ?x (shape (segmentation s))"
    using roi_within_overlap [OF g(1) g(4)] g(3) by blast
  note u = wf_roi_union [OF w]
  show "wf_roi ?n (change_roi_of s ctx ru rv)"
    unfolding change_roi_of_def by (rule wf_roi_overlap [OF x u i4])
  show "nonneg_roi (change_roi_of s ctx ru rv)"
    unfolding change_roi_of_def using nonneg_roi_overlap [OF x u] xn by blast
  show "roi_within (change_roi_of s ctx ru rv) (shape (segmentation s))"
    unfolding change_roi_of_def using roi_within_overlap [OF x u] xw by blast
  show "\<not> roi_empty (change_roi_of s ctx ru rv)"
    unfolding change_roi_of_def by (rule overlap_nonempty [OF x u i4])
qed

lemma change_roi_nth:
  assumes "wf_pair s ctx ru rv" "j < length (shape (segmentation s))"
  shows "roi_offset (change_roi_of s ctx ru rv) ! j
       = max (roi_offset (overlap (overlap (grow ru ctx ctx) (total_roi s))
                                  (overlap (grow rv ctx ctx) (total_roi s))) ! j)
             (roi_offset (union_roi ru rv) ! j)"
    "roi_offset (change_roi_of s ctx ru rv) ! j + roi_shape (change_roi_of s ctx ru rv) ! j
       \<le> roi_offset (union_roi ru rv) ! j + roi_shape (union_roi ru rv) ! j"
    "0 < roi_shape (change_roi_of s ctx ru rv) ! j" "0 \<le> ctx ! j"
    "roi_offset (grow (change_roi_of s ctx ru rv) ctx ctx) ! j
       = roi_offset (change_roi_of s ctx ru rv) ! j - ctx ! j"
    "roi_shape (grow (change_roi_of s ctx ru rv) ctx ctx) ! j
       = roi_shape (change_roi_of s ctx ru rv) ! j + ctx ! j + ctx ! j"
proof -
  let ?n = "length (shape (segmentation s))"
  let ?ch = "change_roi_of s ctx ru rv"
  let ?x = "overlap (overlap (grow ru ctx ctx) (total_roi s))
                    (overlap (grow rv ctx ctx) (total_roi s))"
  let ?u = "union_roi ru rv"
  from assms have w: "wf_roi ?n ru" "wf_roi ?n rv"
    and c: "length ctx = ?n" "list_all (\<lambda>x. 0 \<le> x) ctx"
    and i3: "intersects (overlap (grow ru ctx ctx) (total_roi s))
                        (overlap (grow rv ctx ctx) (total_roi s))"
    by (auto simp: wf_pair_def)
  note g = wf_pair_grown [OF assms(1)]
  note x = wf_roi_overlap [OF g(1) g(4) i3]
  note u = wf_roi_union [OF w]
  note chw = change_roi_wf [OF assms(1)]
  note lx = wf_roi_lengths [OF x] note lu = wf_roi_lengths [OF u]
  note lch = wf_roi_lengths [OF chw(1)]
  have cho: "roi_offset ?ch ! j = max (roi_offset ?x ! j) (roi_offset ?u ! j)"
    and chs: "roi_shape ?ch ! j = min (roi_offset ?x ! j + roi_shape ?x ! j)
       (roi_offset ?u ! j + roi_shape ?u ! j) - max (roi_offset ?x ! j) (roi_offset ?u ! j)"
    unfolding change_roi_of_def
    using overlap_nth [of ?x ?n ?u j] lx lu assms(2) by simp_all
  show "roi_offset ?ch ! j = max (roi_offset ?x ! j) (roi_offset ?u ! j)" by (rule cho)
  show "roi_offset ?ch ! j + roi_shape ?ch ! j \<le> roi_offset ?u ! j + roi_shape ?u ! j"
    using cho chs by linarith
  show "0 < roi_shape ?ch ! j"
    by (rule wf_roi_nonempty_pos [OF chw(1) chw(4) assms(2)])
  show "0 \<le> ctx ! j" using c assms(2) by (simp add: list_all_length)
  show "roi_offset (grow ?ch ctx ctx) ! j = roi_offset ?ch ! j - ctx ! j"
    "roi_shape (grow ?ch ctx ctx) ! j = roi_shape ?ch ! j + ctx ! j + ctx ! j"
    using grow_nth [of ?ch ?n ctx j] lch c(1) assms(2) by simp_all
qed

lemma grown_change_intersects:
  assumes "wf_pair s ctx ru rv"
  shows "intersects (grow (change_roi_of s ctx ru rv) ctx ctx) (union_roi ru rv)"
proof -
  let ?n = "length (shape (segmentation s))"
  let ?ch = "change_roi_of s ctx ru rv"
  let ?u = "union_roi ru rv"
  from assms have w: "wf_roi ?n ru" "wf_roi ?n rv"
    and c: "length ctx = ?n" "list_all (\<lambda>x. 0 \<le> x) ctx"
    and i4: "intersects (overlap (overlap (grow ru ctx ctx) (total_roi s))
                                 (overlap (grow rv ctx ctx) (total_roi s))) ?u"
    by (auto simp: wf_pair_def)
  note u = wf_roi_union [OF w]
  note chw = change_roi_wf [OF assms]
  note gw = wf_roi_grow [OF chw(1) c]
  note lu = wf_roi_lengths [OF u] note lg = wf_roi_lengths [OF gw]
  note k = change_roi_nth [OF assms]
  have "\<not> roi_empty (grow ?ch ctx ctx)"
    unfolding roi_empty_iff using lg k(3,4,6) by fastforce
  moreover have "\<not> roi_empty ?u"
    using i4 by (simp add: intersects_def)
  moreover have "\<not> separated (grow ?ch ctx ctx) ?u"
    unfolding separated_iff [of "grow ?ch ctx ctx" ?n ?u, OF conjunct1 [OF lg] conjunct2 [OF lg]
        conjunct1 [OF lu] conjunct2 [OF lu]]
  proof (intro notI, elim exE conjE)
    fix j assume j: "j < ?n" and
      "roi_offset ?u ! j + roi_shape ?u ! j \<le> roi_offset (grow ?ch ctx ctx) ! j \<or>
       roi_offset (grow ?ch ctx ctx) ! j + roi_shape (grow ?ch ctx ctx) ! j \<le> roi_offset ?u ! j"
    then show False
      using k(1) [OF j] k(2) [OF j] k(3) [OF j] k(4) [OF j] k(5) [OF j] k(6) [OF j] by linarith
  qed
  ultimately show ?thesis by (simp add: intersects_def)
qed

lemma context_roi_wf:
  assumes "wf_pair s ctx ru rv"
  shows "wf_roi (length (shape (segmentation s))) (context_roi_of s ctx ru rv)"
    "nonneg_roi ru \<Longrightarrow> nonneg_roi rv \<Longrightarrow> nonneg_roi (context_roi_of s ctx ru rv)"
    "\<not> roi_empty (context_roi_of s ctx ru rv)"
proof -
  let ?n = "length (shape (segmentation s))"
  from assms have w: "wf_roi ?n ru" "wf_roi ?n rv"
    and c: "length ctx = ?n" "list_all (\<lambda>x. 0 \<le> x) ctx"
    by (auto simp: wf_pair_def)
  note u = wf_roi_union [OF w]
  note g = wf_roi_grow [OF change_roi_wf(1) [OF assms] c]
  note i = grown_change_intersects [OF assms]
  show "wf_roi ?n (context_roi_of s ctx ru rv)"
    unfolding context_roi_of_def by (rule wf_roi_overlap [OF g u i])
  show "nonneg_roi (context_roi_of s ctx ru rv)" if "nonneg_roi ru" "nonneg_roi rv"
    unfolding context_roi_of_def
    using nonneg_roi_overlap [OF g u] nonneg_roi_union [OF w that] by blast
  show "\<not> roi_empty (context_roi_of s ctx ru rv)"
    unfolding context_roi_of_def by (rule overlap_nonempty [OF g u i])
qed

lemma change_roi_contains:
  assumes "wf_pair s ctx ru rv" "roi_contains (change_roi_of s ctx ru rv) p"
  shows "roi_contains (context_roi_of s ctx ru rv) p"
    "roi_contains (union_roi ru rv) p"
    "in_range (shape (segmentation s)) p"
proof -
  let ?n = "length (shape (segmentation s))"
  from assms have w: "wf_roi ?n ru" "wf_roi ?n rv"
    and c: "length ctx = ?n" "list_all (\<lambda>x. 0 \<le> x) ctx"
    and sh: "list_all (\<lambda>m. 0 \<le> m) (shape (segmentation s))"
    and i3: "intersects (overlap (grow ru ctx ctx) (total_roi s))
                        (overlap (grow rv ctx ctx) (total_roi s))"
    by (auto simp: wf_pair_def)
  note g = wf_pair_grown [OF assms(1)]
  note x = wf_roi_overlap [OF g(1) g(4) i3]
  note u = wf_roi_union [OF w]
  note gu = wf_roi_grow [OF w(1) c]
  note t = total_roi_props(1) [OF sh]
  from assms(2) have 1: "roi_contains (overlap (overlap (grow ru ctx ctx) (total_roi s))
                          (overlap (grow rv ctx ctx) (total_roi s))) p"
    and 2: "roi_contains (union_roi ru rv) p"
    unfolding change_roi_of_def roi_contains_overlap_wf [OF x u] by blast+
  show "roi_contains (union_roi ru rv) p" by (rule 2)
  from 1 have "roi_contains (overlap (grow ru ctx ctx) (total_roi s)) p"
    unfolding roi_contains_overlap_wf [OF g(1) g(4)] by blast
  then have "roi_contains (total_roi s) p"
    unfolding roi_contains_overlap_wf [OF gu t] by blast
  then show "in_range (shape (segmentation s)) p" by (simp add: roi_contains_total)
  have "roi_contains (grow (change_roi_of s ctx ru rv) ctx ctx) p"
    by (rule roi_contains_grow [OF change_roi_wf(1) [OF assms(1)] c assms(2)])
  with 2 show "roi_contains (context_roi_of s ctx ru rv) p"
    unfolding context_roi_of_def
    using roi_contains_overlap_wf [OF wf_roi_grow [OF change_roi_wf(1) [OF assms(1)] c] u]
    by blast
qed

lemma change_roi_nested:
  assumes "wf_pair s ctx ru rv" "i < length (shape (segmentation s))"
  shows "roi_offset (context_roi_of s ctx ru rv) ! i \<le> roi_offset (change_roi_of s ctx ru rv) ! i"
    "roi_offset (change_roi_of s ctx ru rv) ! i + roi_shape (change_roi_of s ctx ru rv) ! i
       \<le> roi_offset (context_roi_of s ctx ru rv) ! i + roi_shape (context_roi_of s ctx ru rv) ! i"
proof -
  let ?n = "length (shape (segmentation s))"
  let ?ch = "change_roi_of s ctx ru rv"
  let ?u = "union_roi ru rv"
  from assms have w: "wf_roi ?n ru" "wf_roi ?n rv"
    and c: "length ctx = ?n" "list_all (\<lambda>x. 0 \<le> x) ctx"
    by (auto simp: wf_pair_def)
  note u = wf_roi_union [OF w]
  note chw = change_roi_wf(1) [OF assms(1)]
  note gw = wf_roi_grow [OF chw c]
  note lu = wf_roi_lengths [OF u] note lg = wf_roi_lengths [OF gw]
  note k = change_roi_nth [OF assms]
  have cxo: "roi_offset (context_roi_of s ctx ru rv) ! i
       = max (roi_offset (grow ?ch ctx ctx) ! i) (roi_offset ?u ! i)"
    and cxs: "roi_shape (context_roi_of s ctx ru rv) ! i
       = min (roi_offset (grow ?ch ctx ctx) ! i + roi_shape (grow ?ch ctx ctx) ! i)
             (roi_offset ?u ! i + roi_shape ?u ! i)
         - max (roi_offset (grow ?ch ctx ctx) ! i) (roi_offset ?u ! i)"
    unfolding context_roi_of_def
    using overlap_nth [of "grow ?ch ctx ctx" ?n ?u i] lg lu assms(2) by simp_all
  show "roi_offset (context_roi_of s ctx ru rv) ! i \<le> roi_offset ?ch ! i"
    using cxo k by linarith
  show "roi_offset ?ch ! i + roi_shape ?ch ! i
       \<le> roi_offset (context_roi_of s ctx ru rv) ! i + roi_shape (context_roi_of s ctx ru rv) ! i"
    using cxo cxs k by linarith
qed

lemma roi_sub_nth:
  assumes "length (roi_offset r) = n" "length b = n" "i < n"
  shows "roi_offset (roi_sub r b) ! i = roi_offset r ! i - b ! i"
  using assms by (simp add: roi_sub_def)

lemma get_lsds_edge_rois_Inr:
  assumes "node_roi s u = Inr ru" "node_roi s v = Inr rv"
    "context_in_voxels (self_context s) (voxel_size s) = Inr ctx"
  shows "get_lsds_edge_rois s u v = Inr (ch, cx) \<longleftrightarrow>
     intersects (grow ru ctx ctx) (total_roi s) \<and>
     intersects (grow rv ctx ctx) (total_roi s) \<and>
     intersects (overlap (grow ru ctx ctx) (total_roi s))
                (overlap (grow rv ctx ctx) (total_roi s)) \<and>
     intersects (overlap (overlap (grow ru ctx ctx) (total_roi s))
                         (overlap (grow rv ctx ctx) (total_roi s)))
                (union_roi ru rv) \<and>
     intersects (grow (change_roi_of s ctx ru rv) ctx ctx) (union_roi ru rv) \<and>
     ch = change_roi_of s ctx ru rv \<and> cx = context_roi_of s ctx ru rv"
  by (auto simp: get_lsds_edge_rois_def assms Let_def intersect_def region_intersect_def
      region_grow_def change_roi_of_def context_roi_of_def)

lemma change_region_Some:
  "change_region s ctx ru rv = Some ch \<longleftrightarrow>
     intersects (grow ru ctx ctx) (total_roi s) \<and>
     intersects (grow rv ctx ctx) (total_roi s) \<and>
     intersects (overlap (grow ru ctx ctx) (total_roi s))
                (overlap (grow rv ctx ctx) (total_roi s)) \<and>
     intersects (overlap (overlap (grow ru ctx ctx) (total_roi s))
                         (overlap (grow rv ctx ctx) (total_roi s)))
                (union_roi ru rv) \<and>
     ch = change_roi_of s ctx ru rv"
  by (auto simp: change_region_def intersect_def region_intersect_def change_roi_of_def)

lemma get_lsds_edge_rois_empty:
  assumes "node_roi s u = Inr ru" "node_roi s v = Inr rv"
    "context_in_voxels (self_context s) (voxel_size s) = Inr ctx"
    "change_region s ctx ru rv = None"
  shows "get_lsds_edge_rois s u v = Inl TypeError"
  using assms(4)
  by (simp add: get_lsds_edge_rois_def assms(1-3) Let_def change_region_def region_grow_def)

lemma get_lsds_edge_rois_eq:
  assumes "node_roi s u = Inr ru" "node_roi s v = Inr rv"
    "context_in_voxels (self_context s) (voxel_size s) = Inr ctx"
    "wf_pair s ctx ru rv"
  shows "get_lsds_edge_rois s u v = Inr (change_roi_of s ctx ru rv, context_roi_of s ctx ru rv)"
  unfolding get_lsds_edge_rois_Inr [OF assms(1-3)]
  using assms(4) grown_change_intersects [OF assms(4)] by (simp add: wf_pair_def)

lemma get_lsds_edge_rois_wf:
  assumes "get_lsds_edge_rois s u v = Inr (change_roi, context_roi)"
    and "node_roi s u = Inr roi_u" "node_roi s v = Inr roi_v"
    and "wf_roi (length (shape (segmentation s))) roi_u"
        "wf_roi (length (shape (segmentation s))) roi_v"
    and "wf_geometry s"
  shows "\<exists>ctx. wf_pair s ctx roi_u roi_v \<and> change_roi = change_roi_of s ctx roi_u roi_v \<and>
           context_roi = context_roi_of s ctx roi_u roi_v \<and>
           context_in_voxels (self_context s) (voxel_size s) = Inr ctx"
proof -
  from wf_geometry_context [OF assms(6)] obtain ctx where
    c: "context_in_voxels (self_context s) (voxel_size s) = Inr ctx"
    "length ctx = length (shape (segmentation s))" "list_all (\<lambda>x. 0 \<le> x) ctx"
    by blast
  from assms(6) have sh: "list_all (\<lambda>m. 0 \<le> m) (shape (segmentation s))"
    by (simp add: wf_geometry_def)
  note k = assms(1) [unfolded get_lsds_edge_rois_Inr [OF assms(2,3) c(1)]]
  from k sh c assms(4,5) have "wf_pair s ctx roi_u roi_v" by (simp add: wf_pair_def)
  with k c(1) show ?thesis by blast
qed

section \<open>The steps of a merge\<close>

lemma getitem_shape_cong: "shape a = shape b \<Longrightarrow> getitem a sl = getitem b sl"
  by (simp add: getitem_def)

lemma getitem_chan:
  assumes "shape a = C # sh" "shape b = sh" "getitem b sl = Inr vw"
  shows "getitem a (Slice None None # sl) =
           Inr \<lparr>v_start = 0 # v_start vw, v_shape = max 0 C # v_shape vw\<rparr>"
  using assms by (auto simp: getitem_def ebind_Inr_iff)

lemma in_view_Cons:
  "in_view \<lparr>v_start = a # as, v_shape = m # ms\<rparr> q \<longleftrightarrow>
     (\<exists>c p. q = c # p \<and> a \<le> c \<and> c < a + m \<and> in_view \<lparr>v_start = as, v_shape = ms\<rparr> p)"
  by (cases q) (auto simp: in_view_def in_range_def rel_index_def)

lemma view_eta: "\<lparr>v_start = v_start vw, v_shape = v_shape vw\<rparr> = vw"
  by simp

lemma merge_segmentation_eq:
  assumes "node_roi s u = Inr ru" "wf_roi (length (shape (segmentation s))) ru" "nonneg_roi ru"
  shows "merge_segmentation s u v = Inr (s\<lparr>segmentation := relabel_in (segmentation s) ru u v\<rparr>)"
proof -
  from getitem_roi [OF refl assms(2,3)] obtain vw where
    g: "getitem (segmentation s) (to_slices ru) = Inr vw"
    and l: "length (v_start vw) = length (shape (segmentation s))"
    by blast
  have "(in_view vw q \<and> elems (eq_mask (read_view (segmentation s) vw) u) (rel_index vw q))
        \<longleftrightarrow> (roi_contains ru q \<and> in_range (shape (segmentation s)) q \<and> elems (segmentation s) q = u)"
    for q
    using in_view_roi [OF refl assms(2,3) g, of q] abs_rel_index [of q vw]
    by (auto simp: eq_mask_def read_view_def in_view_def)
  then have "(\<lambda>q. if in_view vw q \<and> elems (eq_mask (read_view (segmentation s) vw) u) (rel_index vw q)
                   then v else elems (segmentation s) q)
           = (\<lambda>q. if roi_contains ru q \<and> in_range (shape (segmentation s)) q \<and> elems (segmentation s) q = u
                        then v else elems (segmentation s) q)"
    by (intro ext) simp
  then show ?thesis
    using assms(1) g
    by (simp add: merge_segmentation_def setitem_mask_def relabel_in_def eq_mask_def read_view_def)
qed

lemma get_lsds_edge_rois_cong:
  assumes "rag s' = rag s" "shape (segmentation s') = shape (segmentation s)"
    "self_context s' = self_context s" "voxel_size s' = voxel_size s"
  shows "get_lsds_edge_rois s' u v = get_lsds_edge_rois s u v"
  using assms by (simp add: get_lsds_edge_rois_def node_roi_def total_roi_def)

lemma merge_segmentation_frame:
  assumes "merge_segmentation s u v = Inr s'"
  shows "rag s' = rag s" "shape (segmentation s') = shape (segmentation s)"
    "self_context s' = self_context s" "voxel_size s' = voxel_size s" "lsds s' = lsds s"
    "target_lsds s' = target_lsds s" "lsd_extractor s' = lsd_extractor s" "fragments s' = fragments s"
  using assms
  by (auto simp: merge_segmentation_def ebind_Inr_iff setitem_mask_def split: if_splits)

lemma set_node_frame:
  assumes "set_node_roi s v r = Inr s' \<or> set_node_score s v x = Inr s'"
  shows "segmentation s' = segmentation s" "lsds s' = lsds s" "target_lsds s' = target_lsds s"
    "self_context s' = self_context s" "voxel_size s' = voxel_size s"
    "lsd_extractor s' = lsd_extractor s" "fragments s' = fragments s"
  using assms by (auto simp: set_node_roi_def set_node_score_def split: option.splits)

lemma merge_nodes_steps:
  assumes "merge_nodes s u v = Inr s'"
  shows "\<exists>s1 change_roi context_roi seg_view lsds_merged change_view lsds_view lsds_new.
     merge_segmentation s u v = Inr s1 \<and>
     get_lsds_edge_rois s u v = Inr (change_roi, context_roi) \<and>
     getitem (segmentation s1) (to_slices context_roi) = Inr seg_view \<and>
     get_descriptors (lsd_extractor s) (read_view (segmentation s1) seg_view)
        (Some (roi_sub change_roi (get_begin context_roi))) [v] (voxel_size s) = Inr lsds_merged \<and>
     getitem (read_view (segmentation s1) seg_view)
        (to_slices (roi_sub change_roi (get_begin context_roi))) = Inr change_view \<and>
     getitem (lsds s) (Slice None None # to_slices change_roi) = Inr lsds_view \<and>
     setitem_chan_mask (lsds s) lsds_view
        (eq_mask (read_view (read_view (segmentation s1) seg_view) change_view) v) lsds_merged
        = Inr lsds_new \<and>
     segmentation s' = segmentation s1 \<and> lsds s' = lsds_new \<and> target_lsds s' = target_lsds s \<and>
     self_context s' = self_context s \<and> voxel_size s' = voxel_size s \<and>
     lsd_extractor s' = lsd_extractor s \<and> fragments s' = fragments s"
proof -
  from assms obtain s1 chcx seg_view lsds_merged change_view lsds_view lsds_new roi_u roi_v s3
     score_v score_u w where
    a: "merge_segmentation s u v = Inr s1"
    and b: "get_lsds_edge_rois s1 u v = Inr chcx"
    and c: "getitem (segmentation s1) (to_slices (snd chcx)) = Inr seg_view"
    and d: "get_descriptors (lsd_extractor s1) (read_view (segmentation s1) seg_view)
        (Some (roi_sub (fst chcx) (get_begin (snd chcx)))) [v] (voxel_size s1) = Inr lsds_merged"
    and e: "getitem (read_view (segmentation s1) seg_view)
        (to_slices (roi_sub (fst chcx) (get_begin (snd chcx)))) = Inr change_view"
    and f: "getitem (lsds s1) (Slice None None # to_slices (fst chcx)) = Inr lsds_view"
    and g: "setitem_chan_mask (lsds s1) lsds_view
        (eq_mask (read_view (read_view (segmentation s1) seg_view) change_view) v) lsds_merged
        = Inr lsds_new"
    and h: "set_node_roi (s1\<lparr>lsds := lsds_new\<rparr>) v (union_roi roi_u roi_v) = Inr s3"
    and i: "set_node_score s3 v (score_v + score_u + w) = Inr s'"
    by (auto simp: merge_nodes_def ebind_Inr_iff Let_def split: prod.splits)
  note fr = merge_segmentation_frame [OF a]
  note f3 = set_node_frame [of "s1\<lparr>lsds := lsds_new\<rparr>" v "union_roi roi_u roi_v" s3 0, OF disjI1 [OF h]]
  note f4 = set_node_frame [of s3 v undefined s' "score_v + score_u + w", OF disjI2 [OF i]]
  have b': "get_lsds_edge_rois s u v = Inr (fst chcx, snd chcx)"
    using b get_lsds_edge_rois_cong [OF fr(1-4)] by simp
  show ?thesis
    apply (rule exI [of _ s1], rule exI [of _ "fst chcx"], rule exI [of _ "snd chcx"],
        rule exI [of _ seg_view], rule exI [of _ lsds_merged], rule exI [of _ change_view],
        rule exI [of _ lsds_view], rule exI [of _ lsds_new])
    using a b' c d e f g fr f3 f4 by simp
qed

lemma setitem_chan_mask_changed:
  assumes "setitem_chan_mask a vw m b = Inr a'"
  shows "shape a' = shape a" "elems a' q \<noteq> elems a q \<Longrightarrow> in_view vw q"
  using assms by (auto simp: setitem_chan_mask_def split: if_splits)

lemma lsds_view_roi:
  assumes "wf_volumes s" "wf_roi (length (shape (segmentation s))) r" "nonneg_roi r"
    "getitem (lsds s) (Slice None None # to_slices r) = Inr lsds_view" "in_view lsds_view q"
  shows "q \<noteq> [] \<and> roi_contains r (tl q) \<and> in_range (shape (segmentation s)) (tl q) \<and>
         0 \<le> hd q \<and> hd q < hd (shape (lsds s))"
proof -
  from getitem_roi [OF refl assms(2,3)] obtain vw where
    g: "getitem (segmentation s) (to_slices r) = Inr vw" by blast
  from assms(1) obtain C where sh: "shape (lsds s) = C # shape (segmentation s)"
    by (cases "shape (target_lsds s)") (auto simp: wf_volumes_def)
  from getitem_chan [OF sh refl g] assms(4)
  have lv: "lsds_view = \<lparr>v_start = 0 # v_start vw, v_shape = max 0 C # v_shape vw\<rparr>" by simp
  from assms(5) obtain c p where q: "q = c # p" "0 \<le> c" "c < max 0 C" "in_view vw p"
    unfolding lv in_view_Cons view_eta by auto
  from in_view_roi [OF refl assms(2,3) g, of p] q(4)
  have "roi_contains r p" "in_range (shape (segmentation s)) p" by blast+
  with q sh show ?thesis by auto
qed

section \<open>Sums over arrays\<close>

lemma set_indices: "set (indices sh) = {p. in_range sh p}"
proof (induction sh)
  case Nil
  show ?case by (auto simp: in_range_def)
next
  case (Cons n ns)
  show ?case
  proof (intro set_eqI iffI)
    fix p assume "p \<in> set (indices (n # ns))"
    then obtain i q where "p = i # q" "0 \<le> i" "i \<le> n - 1" "q \<in> set (indices ns)" by auto
    with Cons show "p \<in> {p. in_range (n # ns) p}" by (auto simp: in_range_def)
  next
    fix p assume "p \<in> {p. in_range (n # ns) p}"
    then obtain i q where "p = i # q" "0 \<le> i" "i < n" "in_range ns q"
      by (cases p) (auto simp: in_range_def)
    with Cons show "p \<in> set (indices (n # ns))" by auto
  qed
qed

lemma distinct_indices: "distinct (indices sh)"
proof (induction sh)
  case Nil
  show ?case by simp
next
  case (Cons n ns)
  show ?case
  proof (cases "indices ns = []")
    case True
    have e: "concat (map (\<lambda>i::int. ([]::int list list)) xs) = []" for xs
      by (induction xs) auto
    show ?thesis using True by (simp add: e)
  next
    case False
    then obtain q qs where q: "indices ns = q # qs" by (cases "indices ns") auto
    show ?thesis
      unfolding indices.simps
    proof (rule distinct_concat)
      show "distinct (map (\<lambda>i. map ((#) i) (indices ns)) [0..n - 1])"
        using q by (auto simp: distinct_map inj_on_def)
    next
      fix ys assume "ys \<in> set (map (\<lambda>i. map ((#) i) (indices ns)) [0..n - 1])"
      then show "distinct ys" using Cons by (auto simp: distinct_map)
    next
      fix ys zs assume "ys \<in> set (map (\<lambda>i. map ((#) i) (indices ns)) [0..n - 1])"
        "zs \<in> set (map (\<lambda>i. map ((#) i) (indices ns)) [0..n - 1])" "ys \<noteq> zs"
      then show "set ys \<inter> set zs = {}" by auto
    qed
  qed
qed

lemma finite_in_range [simp]: "finite {p. in_range sh p}"
  using set_indices [of sh, symmetric] by (metis List.finite_set)

lemma np_sum_set: "np_sum a = sum (elems a) {p. in_range (shape a) p}"
  unfolding np_sum_def
  using sum_list_distinct_conv_sum_set [OF distinct_indices, of "elems a" "shape a"]
  by (simp add: set_indices)

lemma masked_sq_error_set:
  "masked_sq_error sh m t d = (\<Sum>q | in_range sh q \<and> m q. (t q - d q)\<^sup>2)"
proof -
  have "distinct (filter m (indices sh))" by (simp add: distinct_indices)
  from sum_list_distinct_conv_sum_set [OF this, of "\<lambda>q. (t q - d q)\<^sup>2"]
  show ?thesis by (simp add: masked_sq_error_def set_indices)
qed

lemma rel_abs_index:
  "length p = length (v_start vw) \<Longrightarrow> rel_index vw (map2 (+) (v_start vw) p) = p"
  by (auto simp: rel_index_def list_eq_iff_nth_eq)

lemma view_sum_reindex:
  assumes "view_inside vw sh"
  shows "(\<Sum>p | in_range (v_shape vw) p. g (map2 (+) (v_start vw) p))
         = (\<Sum>q | in_range sh q \<and> in_view vw q. g q)"
proof (rule sum.reindex_bij_witness [of _ "rel_index vw" "\<lambda>p. map2 (+) (v_start vw) p"])
  from assms have l: "length (v_start vw) = length sh" "length (v_shape vw) = length sh"
    and i: "\<And>i. i < length sh \<Longrightarrow> 0 \<le> v_start vw ! i \<and> v_start vw ! i + v_shape vw ! i \<le> sh ! i"
    by (auto simp: view_inside_def)
  fix p assume "p \<in> {p. in_range (v_shape vw) p}"
  then have p: "length p = length sh" "\<And>i. i < length sh \<Longrightarrow> 0 \<le> p ! i \<and> p ! i < v_shape vw ! i"
    using l by (auto simp: in_range_iff)
  show "rel_index vw (map2 (+) (v_start vw) p) = p"
    using rel_abs_index [of p vw] p l by simp
  have "in_range sh (map2 (+) (v_start vw) p)"
    unfolding in_range_iff using p l i by (auto simp: ) (smt (verit))+
  moreover have "in_view vw (map2 (+) (v_start vw) p)"
    unfolding in_view_def using rel_abs_index [of p vw] p l \<open>p \<in> _\<close> by simp
  ultimately show "map2 (+) (v_start vw) p \<in> {q. in_range sh q \<and> in_view vw q}" by simp
  show "g (map2 (+) (v_start vw) p) = g (map2 (+) (v_start vw) p)" ..
next
  fix q assume "q \<in> {q. in_range sh q \<and> in_view vw q}"
  then have q: "in_view vw q" by simp
  then show "map2 (+) (v_start vw) (rel_index vw q) = q"
    using abs_rel_index [of q vw] by (simp add: in_view_def)
  from q show "rel_index vw q \<in> {p. in_range (v_shape vw) p}" by (simp add: in_view_def)
qed

section \<open>The node score\<close>

lemma getitem_roi_inside:
  assumes "length (shape a) = n" "wf_roi n r" "nonneg_roi r" "list_all (\<lambda>m. 0 \<le> m) (shape a)"
    "getitem a (to_slices r) = Inr vw"
  shows "view_inside vw (shape a)"
proof -
  from assms have s: "\<And>i. i < n \<Longrightarrow> 0 \<le> roi_shape r ! i" and o: "\<And>i. i < n \<Longrightarrow> 0 \<le> roi_offset r ! i"
    and m: "\<And>i. i < n \<Longrightarrow> 0 \<le> shape a ! i"
    by (auto simp: wf_roi_nth nonneg_roi_nth list_all_length)
  from getitem_roi [OF assms(1-3)] assms(5) have v: "length (v_start vw) = n" "length (v_shape vw) = n"
    and vi: "\<And>i. i < n \<Longrightarrow> v_start vw ! i = min (roi_offset r ! i) (shape a ! i)"
       "\<And>i. i < n \<Longrightarrow> v_shape vw ! i = max 0 (min (roi_offset r ! i + roi_shape r ! i) (shape a ! i)
                                           - min (roi_offset r ! i) (shape a ! i))"
    by auto
  have "0 \<le> v_start vw ! i \<and> v_start vw ! i + v_shape vw ! i \<le> shape a ! i" if "i < n" for i
    using vi [OF that] s [OF that] o [OF that] m [OF that] by (auto simp: min_def max_def)
  then show ?thesis using v assms(1) by (simp add: view_inside_def)
qed

lemma view_inside_chan:
  assumes "view_inside vw sh" "0 \<le> C"
  shows "view_inside \<lparr>v_start = 0 # v_start vw, v_shape = C # v_shape vw\<rparr> (C # sh)"
  using assms by (auto simp: view_inside_def nth_Cons split: nat.splits)

lemma wf_volumes_shape:
  assumes "wf_volumes s"
  shows "shape (target_lsds s) = hd (shape (target_lsds s)) # shape (segmentation s)"
    "shape (lsds s) = hd (shape (target_lsds s)) # shape (segmentation s)"
    "0 \<le> hd (shape (target_lsds s))" "list_all (\<lambda>m. 0 \<le> m) (shape (segmentation s))"
  using assms by (cases "shape (target_lsds s)"; auto simp: wf_volumes_def)+

lemma compute_node_score_eq:
  assumes "node_roi s u = Inr roi"
    and "wf_roi (length (shape (segmentation s))) roi" "nonneg_roi roi" "wf_volumes s"
    and "getitem (segmentation s) (to_slices roi) = Inr seg_view"
    and "get_descriptors (lsd_extractor s) (read_view (segmentation s) seg_view) None [u]
           (voxel_size s) = Inr d"
    and "shape d = hd (shape (target_lsds s)) # v_shape seg_view"
    and "cv = \<lparr>v_start = 0 # v_start seg_view,
                  v_shape = hd (shape (target_lsds s)) # v_shape seg_view\<rparr>"
  shows "compute_node_score s u =
     Inr ((\<Sum>p | in_range (v_shape cv) p.
            (if elems (segmentation s) (map2 (+) (v_start seg_view) (tl p)) = u
             then elems (target_lsds s) (map2 (+) (v_start cv) p) - elems d p else 0)\<^sup>2),
          s\<lparr>lsds := (lsds s)\<lparr>elems := (\<lambda>q.
              if in_view cv q \<and>
                 elems (segmentation s) (map2 (+) (v_start seg_view) (tl (rel_index cv q))) = u
              then elems d (rel_index cv q) else elems (lsds s) q)\<rparr>\<rparr>)"
proof -
  note sh = wf_volumes_shape [OF assms(4)]
  have gt: "getitem (target_lsds s) (Slice None None # to_slices roi) = Inr cv"
    using getitem_chan [OF sh(1) refl assms(5)] sh(3) by (simp add: assms(8))
  have gl: "getitem (lsds s) (Slice None None # to_slices roi) = Inr cv"
    using getitem_chan [OF sh(2) refl assms(5)] sh(3) by (simp add: assms(8))
  have e: "(if c \<noteq> u then 0 else x)\<^sup>2 = (if c = u then x else 0)\<^sup>2" for c :: int and x :: real
    by simp
  show ?thesis
    using assms(1,5,6,7) gt gl
    by (simp add: compute_node_score_def np_sum_set np_sub_def read_view_def
        setitem_chan_mask_scalar_def setitem_chan_mask_def np_logical_not_def eq_mask_def
        np_square_def Let_def assms(8) e cong: if_cong)
qed

lemma in_range_Cons:
  "in_range (C # sh) q \<longleftrightarrow> (\<exists>c p. q = c # p \<and> 0 \<le> c \<and> c < C \<and> in_range sh p)"
  by (cases q) (auto simp: in_range_def)

lemma view_start_roi:
  assumes "length (shape a) = n" "wf_roi n r" "nonneg_roi r" "getitem a (to_slices r) = Inr vw"
    "in_view vw p"
  shows "v_start vw = roi_offset r"
proof -
  from assms have l: "length (roi_offset r) = n" "length (roi_shape r) = n"
    by (auto simp: wf_roi_nth)
  from getitem_roi [OF assms(1-3)] assms(4) have v: "length (v_start vw) = n"
    and vi: "\<And>i. i < n \<Longrightarrow> v_start vw ! i = min (roi_offset r ! i) (shape a ! i)"
    by auto
  from in_view_roi [OF assms(1-4), of p] assms(5)
  have c: "roi_contains r p" "in_range (shape a) p" by blast+
  show ?thesis
  proof (intro nth_equalityI)
    show "length (v_start vw) = length (roi_offset r)" using v l by simp
    fix i assume "i < length (v_start vw)"
    then have i: "i < n" using v by simp
    from c i assms(1) have "roi_offset r ! i \<le> p ! i" "p ! i < shape a ! i"
      unfolding roi_contains_iff [OF l] in_range_iff by auto
    with vi [OF i] show "v_start vw ! i = roi_offset r ! i" by simp
  qed
qed

lemma chan_view_facts:
  assumes "getitem a (to_slices r) = Inr vw" "wf_roi (length (shape a)) r" "nonneg_roi r" "0 \<le> C"
    "cv = \<lparr>v_start = 0 # v_start vw, v_shape = C # v_shape vw\<rparr>"
  shows "in_view cv q \<longleftrightarrow> in_range (C # shape a) q \<and> roi_contains r (tl q)"
    "in_view cv q \<Longrightarrow> rel_index cv q = hd q # map2 (-) (tl q) (roi_offset r)"
    "in_view cv q \<Longrightarrow> map2 (+) (v_start vw) (tl (rel_index cv q)) = tl q"
proof -
  show 1: "in_view cv q \<longleftrightarrow> in_range (C # shape a) q \<and> roi_contains r (tl q)"
    unfolding assms(5) in_view_Cons in_range_Cons view_eta
    using in_view_roi [OF refl assms(2,3,1)] by auto
  assume q: "in_view cv q"
  then obtain c p where cp: "q = c # p" "in_view vw p"
    unfolding assms(5) in_view_Cons view_eta by auto
  from view_start_roi [OF refl assms(2,3,1) cp(2)] have st: "v_start vw = roi_offset r" .
  show "rel_index cv q = hd q # map2 (-) (tl q) (roi_offset r)"
    using cp st by (simp add: rel_index_def assms(5))
  show "map2 (+) (v_start vw) (tl (rel_index cv q)) = tl q"
    using cp abs_rel_index [of p vw] by (simp add: rel_index_def assms(5) in_view_def)
qed

section \<open>The edge score\<close>

lemma in_view_whole:
  "in_view \<lparr>v_start = replicate (length sh) 0, v_shape = sh\<rparr> q \<longleftrightarrow> in_range sh q"
  "in_range sh q \<Longrightarrow> rel_index \<lparr>v_start = replicate (length sh) 0, v_shape = sh\<rparr> q = q"
proof -
  have r: "rel_index \<lparr>v_start = replicate (length sh) 0, v_shape = sh\<rparr> q = q"
    if "length q = length sh"
    using that by (auto simp: rel_index_def list_eq_iff_nth_eq)
  show "in_view \<lparr>v_start = replicate (length sh) 0, v_shape = sh\<rparr> q \<longleftrightarrow> in_range sh q"
    using r by (auto simp: in_view_def in_range_iff)
  show "in_range sh q \<Longrightarrow> rel_index \<lparr>v_start = replicate (length sh) 0, v_shape = sh\<rparr> q = q"
    using r by (simp add: in_range_iff)
qed

lemma relabel_scratch:
  "setitem_mask (np_array (read_view a vw))
     \<lparr>v_start = replicate (length (shape (np_array (read_view a vw)))) 0,
      v_shape = shape (np_array (read_view a vw))\<rparr>
     (eq_mask (np_array (read_view a vw)) u) v = Inr (relabelled_slice a vw u v)"
proof -
  have "(\<lambda>q. if in_view \<lparr>v_start = replicate (length (v_shape vw)) 0, v_shape = v_shape vw\<rparr> q \<and>
               elems a (map2 (+) (v_start vw)
                 (rel_index \<lparr>v_start = replicate (length (v_shape vw)) 0, v_shape = v_shape vw\<rparr> q)) = u
            then v else elems a (map2 (+) (v_start vw) q))
      = (\<lambda>p. if in_range (v_shape vw) p \<and> elems a (map2 (+) (v_start vw) p) = u then v
                   else elems a (map2 (+) (v_start vw) p))"
    by (intro ext) (auto simp: in_view_whole)
  then show ?thesis
    by (simp add: setitem_mask_def np_array_def read_view_def eq_mask_def relabelled_slice_def
        cong: if_cong)
qed

lemma compute_edge_score_eq:
  assumes "get_lsds_edge_rois s u v = Inr (change_roi, context_roi)"
    and "getitem (segmentation s) (to_slices context_roi) = Inr seg_view"
    and "getitem (read_view (segmentation s) seg_view)
           (to_slices (roi_sub change_roi (get_begin context_roi))) = Inr cw"
    and "v_shape cw = roi_shape change_roi"
    and "getitem (lsds s) (Slice None None # to_slices change_roi) = Inr cv"
    and "getitem (target_lsds s) (Slice None None # to_slices change_roi) = Inr cv"
    and "v_shape cv = C # roi_shape change_roi"
    and "get_descriptors (lsd_extractor s) (relabelled_slice (segmentation s) seg_view u v)
           (Some (roi_sub change_roi (get_begin context_roi))) [v] (voxel_size s) = Inr d"
    and "shape d = C # roi_shape change_roi"
  shows "compute_edge_score s u v =
     Inr ((\<Sum>p | in_range (v_shape cv) p.
            (if elems (segmentation s)
                  (map2 (+) (v_start seg_view) (map2 (+) (v_start cw) (tl p))) \<in> {u, v}
             then elems (target_lsds s) (map2 (+) (v_start cv) p) - elems d p else 0)\<^sup>2)
        - (\<Sum>p | in_range (v_shape cv) p.
            (if elems (segmentation s)
                  (map2 (+) (v_start seg_view) (map2 (+) (v_start cw) (tl p))) \<in> {u, v}
             then elems (target_lsds s) (map2 (+) (v_start cv) p)
                  - elems (lsds s) (map2 (+) (v_start cv) p) else 0)\<^sup>2), s)"
proof -
  have e: "(if c \<noteq> u \<and> c \<noteq> v then 0 else x)\<^sup>2 = (if c = u \<or> c = v then x else 0)\<^sup>2"
    for c :: int and x :: real
    by simp
  have g3: "getitem (np_array (read_view (segmentation s) seg_view))
           (to_slices (roi_sub change_roi (get_begin context_roi))) = Inr cw"
    using assms(3) by (simp add: np_array_def)
  show ?thesis
    unfolding compute_edge_score_def
    using assms(1,2,4-9) g3 relabel_scratch [of "segmentation s" seg_view u v]
    by (simp add: np_sum_set np_sub_def read_view_def np_array_def
        setitem_chan_mask_scalar_def np_logical_not_def np_isin_def
        np_square_def Let_def e cong: if_cong)
qed

lemma change_view_exists:
  assumes "wf_pair s ctx roi_u roi_v" "nonneg_roi roi_u" "nonneg_roi roi_v"
    and "change_roi = change_roi_of s ctx roi_u roi_v"
    and "context_roi = context_roi_of s ctx roi_u roi_v"
    and "getitem (segmentation s) (to_slices context_roi) = Inr seg_view"
  shows "\<exists>cw. getitem (read_view (segmentation s) seg_view)
                 (to_slices (roi_sub change_roi (get_begin context_roi))) = Inr cw \<and>
              v_shape cw = roi_shape change_roi \<and>
              v_start cw = roi_offset (roi_sub change_roi (get_begin context_roi))"
proof -
  let ?n = "length (shape (segmentation s))"
  let ?rel = "roi_sub change_roi (get_begin context_roi)"
  let ?seg = "read_view (segmentation s) seg_view"
  note chw = change_roi_wf [OF assms(1), folded assms(4)]
  note cxw = context_roi_wf(1) [OF assms(1), folded assms(5)]
  note cxn = context_roi_wf(2) [OF assms(1,2,3), folded assms(5)]
  note lch = wf_roi_lengths [OF chw(1)] note lcx = wf_roi_lengths [OF cxw]
  from getitem_roi [OF refl cxw cxn] assms(6) have lv: "length (v_shape seg_view) = ?n"
    and vs: "\<And>i. i < ?n \<Longrightarrow> v_shape seg_view ! i =
        max 0 (min (roi_offset context_roi ! i + roi_shape context_roi ! i) (shape (segmentation s) ! i)
               - min (roi_offset context_roi ! i) (shape (segmentation s) ! i))"
    by auto
  have lrel: "length (roi_offset ?rel) = ?n" "length (roi_shape ?rel) = ?n"
    using lch lcx by (simp_all add: roi_sub_def get_begin_def)
  have shs: "length (shape ?seg) = ?n" using lv by (simp add: read_view_def)
  have nest: "roi_offset context_roi ! i \<le> roi_offset change_roi ! i"
    "roi_offset change_roi ! i + roi_shape change_roi ! i
       \<le> roi_offset context_roi ! i + roi_shape context_roi ! i" if "i < ?n" for i
    using change_roi_nested [OF assms(1) that] assms(4,5) by simp_all
  have pos: "0 < roi_shape change_roi ! i" if "i < ?n" for i
    by (rule wf_roi_nonempty_pos [OF chw(1) chw(4) that])
  have inside: "roi_offset change_roi ! i + roi_shape change_roi ! i \<le> shape (segmentation s) ! i"
    if "i < ?n" for i
    using chw(3) roi_within_iff [of change_roi ?n "shape (segmentation s)"] lch that by simp
  have relo: "roi_offset ?rel ! i = roi_offset change_roi ! i - roi_offset context_roi ! i"
    and rels: "roi_shape ?rel ! i = roi_shape change_roi ! i" if "i < ?n" for i
    using that lch lcx by (simp_all add: roi_sub_def get_begin_def)
  have wrel: "wf_roi ?n ?rel"
    unfolding wf_roi_nth using lrel rels pos by (auto simp: less_imp_le)
  have nrel: "nonneg_roi ?rel"
    unfolding nonneg_roi_nth using lrel relo nest(1) by simp
  have "roi_offset ?rel ! i + roi_shape ?rel ! i \<le> v_shape seg_view ! i" if "i < ?n" for i
    using vs [OF that] relo [OF that] rels [OF that] nest [OF that] pos [OF that] inside [OF that]
    by (auto simp: min_def max_def)
  then have "roi_within ?rel (shape ?seg)"
    unfolding roi_within_iff [OF lrel shs] by (simp add: read_view_def)
  from getitem_roi_within [OF shs wrel nrel this]
  show ?thesis by (simp add: roi_sub_def)
qed

lemma masked_view_sum:
  fixes g h :: "int list \<Rightarrow> real"
  assumes "view_inside cv sh"
    and "\<And>q. in_range sh q \<Longrightarrow> in_view cv q \<Longrightarrow> g (rel_index cv q) = (if m q then h q else 0)"
  shows "(\<Sum>p | in_range (v_shape cv) p. g p) = (\<Sum>q | in_range sh q \<and> in_view cv q \<and> m q. h q)"
proof -
  have "(\<Sum>p | in_range (v_shape cv) p. g p)
      = (\<Sum>p | in_range (v_shape cv) p. (g \<circ> rel_index cv) (map2 (+) (v_start cv) p))"
  proof (rule sum.cong [OF refl])
    fix p assume "p \<in> {p. in_range (v_shape cv) p}"
    then have "length p = length (v_start cv)"
      using assms(1) by (simp add: in_range_iff view_inside_def)
    from rel_abs_index [OF this]
    show "g p = (g \<circ> rel_index cv) (map2 (+) (v_start cv) p)" by simp
  qed
  also have "\<dots> = (\<Sum>q | in_range sh q \<and> in_view cv q. (g \<circ> rel_index cv) q)"
    by (rule view_sum_reindex [OF assms(1)])
  also have "\<dots> = (\<Sum>q | in_range sh q \<and> in_view cv q. if m q then h q else 0)"
    by (rule sum.cong [OF refl]) (simp add: assms(2))
  also have "\<dots> = (\<Sum>q | in_range sh q \<and> in_view cv q \<and> m q. h q)"
  proof -
    have fin: "finite {q. in_range sh q \<and> in_view cv q}" by simp
    have eq: "{q. in_range sh q \<and> in_view cv q \<and> m q}
       = {q \<in> {q. in_range sh q \<and> in_view cv q}. m q}" by auto
    show ?thesis unfolding eq by (rule sum.inter_filter [OF fin, symmetric])
  qed
  finally show ?thesis .
qed

section \<open>Initialization\<close>

lemma same_setup_refl: "same_setup s s"
  by (simp add: same_setup_def)

lemma same_setup_trans: "same_setup s s' \<Longrightarrow> same_setup s' s'' \<Longrightarrow> same_setup s s''"
  by (simp add: same_setup_def)

lemma set_node_roi_setup:
  assumes "set_node_roi s u r = Inr s'"
  shows "same_setup s s'" "lsds s' = lsds s" "node_roi s' u = Inr r"
    "weight (rag s') = weight (rag s)"
    "\<And>w. w \<noteq> u \<Longrightarrow> node (rag s') w = node (rag s) w"
    "\<And>w. node_score s' w = node_score s w"
  using assms
  by (auto simp: set_node_roi_def same_setup_def node_roi_def node_score_def
      split: option.splits if_splits)

lemma set_node_score_setup:
  assumes "set_node_score s u x = Inr s'"
  shows "same_setup s s'" "lsds s' = lsds s" "node_score s' u = Inr x"
    "weight (rag s') = weight (rag s)"
    "\<And>w. w \<noteq> u \<Longrightarrow> node (rag s') w = node (rag s) w"
    "\<And>w. node_roi s' w = node_roi s w"
  using assms
  by (auto simp: set_node_score_def same_setup_def node_roi_def node_score_def
      split: option.splits if_splits)

lemma set_node_labels_setup:
  assumes "set_node_labels s u x = Inr s'"
  shows "same_setup s s'" "lsds s' = lsds s"
    "weight (rag s') = weight (rag s)"
    "\<And>w. w \<noteq> u \<Longrightarrow> node (rag s') w = node (rag s) w"
    "\<And>w. node_roi s' w = node_roi s w" "\<And>w. node_score s' w = node_score s w"
  using assms
  by (auto simp: set_node_labels_def same_setup_def node_roi_def node_score_def
      split: option.splits if_splits)

lemma set_edge_weight_setup:
  assumes "set_edge_weight s a b w = Inr s'"
  shows "same_setup s s'" "lsds s' = lsds s" "node (rag s') = node (rag s)"
  using assms
  by (auto simp: set_edge_weight_def same_setup_def split: if_splits)


lemma compute_node_score_setup:
  assumes "compute_node_score s u = Inr (x, s')"
  shows "same_setup s s'" "rag s' = rag s"
  using assms
  by (auto simp: compute_node_score_def ebind_Inr_iff Let_def same_setup_def
      setitem_chan_mask_def split: if_splits)


lemma fold_bbox:
  fixes ps :: "int list list"
  assumes "\<forall>q \<in> set ps. length q = n" "length bb = n"
  shows "length (fold (\<lambda>q bb. map2 (\<lambda>x (lo, hi). (min lo x, max hi (x + 1))) q bb) ps bb) = n \<and>
         (\<forall>i<n. fst (fold (\<lambda>q bb. map2 (\<lambda>x (lo, hi). (min lo x, max hi (x + 1))) q bb) ps bb ! i)
                  = Min (insert (fst (bb ! i)) ((\<lambda>q. q ! i) ` set ps)) \<and>
                 snd (fold (\<lambda>q bb. map2 (\<lambda>x (lo, hi). (min lo x, max hi (x + 1))) q bb) ps bb ! i)
                  = Max (insert (snd (bb ! i)) ((\<lambda>q. q ! i + 1) ` set ps)))"
  using assms
proof (induction ps arbitrary: bb)
  case Nil
  then show ?case by simp
next
  case (Cons q ps)
  let ?bb = "map2 (\<lambda>x (lo, hi). (min lo x, max hi (x + 1))) q bb"
  from Cons.prems have lq: "length q = n" and lb: "length ?bb = n" by auto
  have f: "fst (?bb ! i) = min (fst (bb ! i)) (q ! i)" "snd (?bb ! i) = max (snd (bb ! i)) (q ! i + 1)"
    if "i < n" for i
    using that lq Cons.prems(2) by (auto simp: case_prod_beta)
  from Cons.IH [of ?bb] Cons.prems lb
  have ih: "length (fold (\<lambda>q bb. map2 (\<lambda>x (lo, hi). (min lo x, max hi (x + 1))) q bb) ps ?bb) = n"
    "\<And>i. i < n \<Longrightarrow>
       fst (fold (\<lambda>q bb. map2 (\<lambda>x (lo, hi). (min lo x, max hi (x + 1))) q bb) ps ?bb ! i)
                  = Min (insert (fst (?bb ! i)) ((\<lambda>q. q ! i) ` set ps)) \<and>
       snd (fold (\<lambda>q bb. map2 (\<lambda>x (lo, hi). (min lo x, max hi (x + 1))) q bb) ps ?bb ! i)
                  = Max (insert (snd (?bb ! i)) ((\<lambda>q. q ! i + 1) ` set ps))"
    by auto
  have m1: "Min (insert (min a b) S) = Min (insert a (insert b S))"
    if "finite S" for a b :: int and S
  proof (cases "S = {}")
    case True
    then show ?thesis by (simp add: min.commute)
  next
    case False
    with that show ?thesis by (simp add: min.assoc)
  qed
  have m2: "Max (insert (max a c) T) = Max (insert a (insert c T))"
    if "finite T" for a c :: int and T
  proof (cases "T = {}")
    case True
    then show ?thesis by (simp add: max.commute)
  next
    case False
    with that show ?thesis by (simp add: max.assoc)
  qed
  have "fst (fold (\<lambda>q bb. map2 (\<lambda>x (lo, hi). (min lo x, max hi (x + 1))) q bb) (q # ps) bb ! i)
                  = Min (insert (fst (bb ! i)) ((\<lambda>q. q ! i) ` set (q # ps))) \<and>
        snd (fold (\<lambda>q bb. map2 (\<lambda>x (lo, hi). (min lo x, max hi (x + 1))) q bb) (q # ps) bb ! i)
                  = Max (insert (snd (bb ! i)) ((\<lambda>q. q ! i + 1) ` set (q # ps)))" if "i < n" for i
  proof -
    have "Min (insert (fst (?bb ! i)) ((\<lambda>q. q ! i) ` set ps))
        = Min (insert (fst (bb ! i)) (insert (q ! i) ((\<lambda>q. q ! i) ` set ps)))"
      unfolding f(1) [OF that] by (rule m1) simp
    moreover have "Max (insert (snd (?bb ! i)) ((\<lambda>q. q ! i + 1) ` set ps))
        = Max (insert (snd (bb ! i)) (insert (q ! i + 1) ((\<lambda>q. q ! i + 1) ` set ps)))"
      unfolding f(2) [OF that] by (rule m2) simp
    ultimately show ?thesis using ih(2) [OF that] by simp
  qed
  with ih(1) show ?case by simp
qed

lemma length_indices_elem: "p \<in> set (indices sh) \<Longrightarrow> length p = length sh"
  by (simp add: set_indices in_range_iff)

lemma find_objects_tight:
  assumes "voxels_of img u \<noteq> []"
  shows "\<exists>bb. find_objects_first (eq_mask img u) = Inr bb \<and>
           \<lparr>roi_offset = map fst bb, roi_shape = map (\<lambda>(start, stop). stop - start) bb\<rparr>
             = tight_bounding_box img u"
proof -
  let ?n = "length (shape img)"
  from assms obtain p ps where v: "voxels_of img u = p # ps" by (cases "voxels_of img u") auto
  have len: "\<forall>q \<in> set (p # ps). length q = ?n"
    using v [symmetric] by (auto simp: voxels_of_def dest: length_indices_elem)
  let ?bb = "fold (\<lambda>q bb. map2 (\<lambda>x (lo, hi). (min lo x, max hi (x + 1))) q bb) ps
                         (map (\<lambda>x. (x, x + 1)) p)"
  have fo: "find_objects_first (eq_mask img u) = Inr ?bb"
    using v by (simp add: find_objects_first_def voxels_of_def eq_mask_def)
  from fold_bbox [of ps ?n "map (\<lambda>x. (x, x + 1)) p"] len
  have l: "length ?bb = ?n"
    and f: "\<And>i. i < ?n \<Longrightarrow> fst (?bb ! i) = Min (insert (p ! i) ((\<lambda>q. q ! i) ` set ps))"
    and s: "\<And>i. i < ?n \<Longrightarrow> snd (?bb ! i) = Max (insert (p ! i + 1) ((\<lambda>q. q ! i + 1) ` set ps))"
    by auto
  have mx: "Max (insert (a + 1) ((\<lambda>q. q ! i + 1) ` S)) = Max (insert a ((\<lambda>q. q ! i) ` S)) + 1"
    if "finite S" for a :: int and S i
  proof -
    have "insert (a + 1) ((\<lambda>q. q ! i + 1) ` S) = (\<lambda>x. x + 1) ` insert a ((\<lambda>q. q ! i) ` S)"
      by auto
    moreover have "Max ((\<lambda>x. x + 1) ` insert a ((\<lambda>q. q ! i) ` S)) = Max (insert a ((\<lambda>q. q ! i) ` S)) + 1"
      using that by (intro mono_Max_commute [symmetric]) (auto simp: mono_def)
    ultimately show ?thesis by simp
  qed
  have "map fst ?bb = roi_offset (tight_bounding_box img u)"
    using l f v by (intro nth_equalityI) (auto simp: tight_bounding_box_def)
  moreover have "map (\<lambda>(start, stop). stop - start) ?bb = roi_shape (tight_bounding_box img u)"
    using l f s v mx by (intro nth_equalityI) (auto simp: tight_bounding_box_def case_prod_beta)
  ultimately show ?thesis using fo by (simp add: tight_bounding_box_def)
qed

lemma set_voxels_of: "set (voxels_of img u) = {p. in_range (shape img) p \<and> elems img p = u}"
  by (auto simp: voxels_of_def set_indices)

lemma tight_bounding_box_props:
  assumes "voxels_of img u \<noteq> []"
  shows "length (roi_offset (tight_bounding_box img u)) = length (shape img)"
    "length (roi_shape (tight_bounding_box img u)) = length (shape img)"
    "\<And>i p. i < length (shape img) \<Longrightarrow> in_range (shape img) p \<Longrightarrow> elems img p = u \<Longrightarrow>
       roi_offset (tight_bounding_box img u) ! i \<le> p ! i \<and>
       p ! i < roi_offset (tight_bounding_box img u) ! i + roi_shape (tight_bounding_box img u) ! i"
    "\<And>i. i < length (shape img) \<Longrightarrow> 0 \<le> roi_offset (tight_bounding_box img u) ! i"
    "\<And>i. i < length (shape img) \<Longrightarrow> 0 < roi_shape (tight_bounding_box img u) ! i"
proof -
  let ?n = "length (shape img)"
  let ?S = "\<lambda>i. set (map (\<lambda>p. p ! i) (voxels_of img u))"
  have fin: "finite (?S i)" and ne: "?S i \<noteq> {}" for i using assms by auto
  show "length (roi_offset (tight_bounding_box img u)) = ?n"
    "length (roi_shape (tight_bounding_box img u)) = ?n"
    by (simp_all add: tight_bounding_box_def)
  have o: "roi_offset (tight_bounding_box img u) ! i = Min (?S i)"
    and s: "roi_shape (tight_bounding_box img u) ! i = Max (?S i) + 1 - Min (?S i)" if "i < ?n" for i
    using that by (simp_all add: tight_bounding_box_def)
  show "roi_offset (tight_bounding_box img u) ! i \<le> p ! i \<and>
       p ! i < roi_offset (tight_bounding_box img u) ! i + roi_shape (tight_bounding_box img u) ! i"
    if "i < ?n" "in_range (shape img) p" "elems img p = u" for i p
  proof -
    from that have "p ! i \<in> ?S i" by (auto simp: set_voxels_of)
    then have "Min (?S i) \<le> p ! i" "p ! i \<le> Max (?S i)" using fin by auto
    then show ?thesis unfolding o [OF that(1)] s [OF that(1)] by linarith
  qed
  show "0 \<le> roi_offset (tight_bounding_box img u) ! i" if "i < ?n" for i
  proof -
    from Min_in [OF fin ne] obtain p where "p \<in> set (voxels_of img u)" "Min (?S i) = p ! i"
      by auto
    with that show ?thesis unfolding o [OF that] by (auto simp: set_voxels_of in_range_iff)
  qed
  show "0 < roi_shape (tight_bounding_box img u) ! i" if "i < ?n" for i
  proof -
    from Min_in [OF fin ne] have "Min (?S i) \<le> Max (?S i)" using fin by auto
    then show ?thesis unfolding s [OF that] by linarith
  qed
qed

lemma snap_to_grid_props:
  assumes "0 < d" "length (roi_offset r) = n" "length (roi_shape r) = n"
  shows "\<exists>r'. snap_to_grid r (replicate n d) = Inr r' \<and>
           length (roi_offset r') = n \<and> length (roi_shape r') = n \<and>
           (\<forall>i<n. roi_offset r' ! i \<le> roi_offset r ! i \<and>
                   (0 \<le> roi_offset r ! i \<longrightarrow> 0 \<le> roi_offset r' ! i) \<and>
                   roi_offset r ! i + roi_shape r ! i \<le> roi_offset r' ! i + roi_shape r' ! i)"
proof -
  let ?B = "map2 (\<lambda>b c. (b div c) * c) (get_begin r) (replicate n d)"
  let ?E = "map2 (\<lambda>e c. (- ((- e) div c)) * c) (get_end r) (replicate n d)"
  have sn: "snap_to_grid r (replicate n d) = Inr (from_begin_end ?B ?E)"
    using assms(1) by (simp add: snap_to_grid_def)
  have lo: "(b div d) * d \<le> b" and hi: "e \<le> (- ((- e) div d)) * d"
    and nn: "0 \<le> b \<Longrightarrow> 0 \<le> (b div d) * d" for b e :: int
  proof -
    have "b - b mod d = (b div d) * d" by (simp add: minus_mod_eq_div_mult)
    moreover have "0 \<le> b mod d" using assms(1) by simp
    ultimately show "(b div d) * d \<le> b" by linarith
    have "(- e) - (- e) mod d = ((- e) div d) * d" by (simp add: minus_mod_eq_div_mult)
    moreover have "0 \<le> (- e) mod d" using assms(1) by simp
    ultimately have "((- e) div d) * d \<le> - e" by linarith
    then show "e \<le> (- ((- e) div d)) * d" by simp
    show "0 \<le> b \<Longrightarrow> 0 \<le> (b div d) * d"
      using assms(1) by (simp add: pos_imp_zdiv_nonneg_iff)
  qed
  have eq: "roi_offset (from_begin_end ?B ?E) ! i = (roi_offset r ! i div d) * d"
    "roi_offset (from_begin_end ?B ?E) ! i + roi_shape (from_begin_end ?B ?E) ! i
      = (- ((- (roi_offset r ! i + roi_shape r ! i)) div d)) * d" if "i < n" for i
    using that assms(2,3) by (simp_all add: from_begin_end_def get_begin_def get_end_def)
  have "\<forall>i<n. roi_offset (from_begin_end ?B ?E) ! i \<le> roi_offset r ! i \<and>
                   (0 \<le> roi_offset r ! i \<longrightarrow> 0 \<le> roi_offset (from_begin_end ?B ?E) ! i) \<and>
                   roi_offset r ! i + roi_shape r ! i
                     \<le> roi_offset (from_begin_end ?B ?E) ! i + roi_shape (from_begin_end ?B ?E) ! i"
  proof (intro allI impI conjI)
    fix i assume i: "i < n"
    show "roi_offset (from_begin_end ?B ?E) ! i \<le> roi_offset r ! i"
      unfolding eq(1) [OF i] by (rule lo)
    show "roi_offset r ! i + roi_shape r ! i
                     \<le> roi_offset (from_begin_end ?B ?E) ! i + roi_shape (from_begin_end ?B ?E) ! i"
      unfolding eq(2) [OF i] by (rule hi)
    assume "0 \<le> roi_offset r ! i"
    then show "0 \<le> roi_offset (from_begin_end ?B ?E) ! i"
      unfolding eq(1) [OF i] by (rule nn)
  qed
  moreover have "length (roi_offset (from_begin_end ?B ?E)) = n"
    "length (roi_shape (from_begin_end ?B ?E)) = n"
    using assms(2,3) by (simp_all add: from_begin_end_def get_begin_def get_end_def)
  ultimately show ?thesis using sn by blast
qed


lemma snapped_region_good:
  assumes "voxels_of (segmentation s) u \<noteq> []" "0 < d"
    "snap_to_grid (tight_bounding_box (segmentation s) u)
       (replicate (length (shape (segmentation s))) d) = Inr r"
  shows "good_region s u r"
proof -
  let ?n = "length (shape (segmentation s))"
  let ?t = "tight_bounding_box (segmentation s) u"
  note t = tight_bounding_box_props [OF assms(1)]
  from snap_to_grid_props [OF assms(2) t(1,2)] assms(3)
  have l: "length (roi_offset r) = ?n" "length (roi_shape r) = ?n"
    and sn: "\<And>i. i < ?n \<Longrightarrow> roi_offset r ! i \<le> roi_offset ?t ! i \<and>
                   (0 \<le> roi_offset ?t ! i \<longrightarrow> 0 \<le> roi_offset r ! i) \<and>
                   roi_offset ?t ! i + roi_shape ?t ! i \<le> roi_offset r ! i + roi_shape r ! i"
    by auto
  have "0 \<le> roi_shape r ! i" if "i < ?n" for i
    using sn [OF that] t(5) [OF that] by linarith
  then have w: "wf_roi ?n r" unfolding wf_roi_nth using l by blast
  have n: "nonneg_roi r" unfolding nonneg_roi_nth using l sn t(4) by simp
  have "roi_contains r p" if "in_range (shape (segmentation s)) p" "elems (segmentation s) p = u" for p
    unfolding roi_contains_iff [OF l]
  proof (intro conjI allI impI)
    show "length p = ?n" using that(1) by (simp add: in_range_iff)
    fix i assume i: "i < ?n"
    from t(3) [OF i that] sn [OF i]
    show "roi_offset r ! i \<le> p ! i" "p ! i < roi_offset r ! i + roi_shape r ! i" by linarith+
  qed
  with w n show ?thesis by (simp add: good_region_def)
qed

lemma slice_to_roi_tight:
  assumes "find_objects_first (eq_mask img u) = Inr bb"
  shows "voxels_of img u \<noteq> []"
    "slice_to_roi s bb = snap_to_grid (tight_bounding_box img u)
       (replicate (length (shape img)) (downsample (lsd_extractor s)))"
proof -
  show ne: "voxels_of img u \<noteq> []"
    using assms by (auto simp: find_objects_first_def voxels_of_def eq_mask_def split: list.splits)
  from find_objects_tight [OF ne] assms
  have "\<lparr>roi_offset = map fst bb, roi_shape = map (\<lambda>(start, stop). stop - start) bb\<rparr>
             = tight_bounding_box img u" by auto
  moreover have "dims (tight_bounding_box img u) = length (shape img)"
    by (simp add: dims_def tight_bounding_box_def)
  ultimately show "slice_to_roi s bb = snap_to_grid (tight_bounding_box img u)
       (replicate (length (shape img)) (downsample (lsd_extractor s)))"
    by (simp add: slice_to_roi_def Let_def)
qed

lemma initialize_node_result:
  assumes "initialize_node s u = Inr s'"
  shows "same_setup s s'" "weight (rag s') = weight (rag s)"
    "\<And>w. w \<noteq> u \<Longrightarrow> node (rag s') w = node (rag s) w"
    "\<exists>r. node_roi s' u = Inr r \<and>
         snap_to_grid (tight_bounding_box (fragments s) u)
           (replicate (length (shape (fragments s))) (downsample (lsd_extractor s))) = Inr r"
    "voxels_of (fragments s) u \<noteq> []"
proof -
  from assms obtain bb roi s1 score s2 s3 where
    a: "find_objects_first (eq_mask (fragments s) u) = Inr bb"
    and b: "slice_to_roi s bb = Inr roi"
    and c: "set_node_roi s u roi = Inr s1"
    and d: "compute_node_score s1 u = Inr (score, s2)"
    and e: "set_node_score s2 u score = Inr s3"
    and f: "set_node_labels s3 u [u] = Inr s'"
    by (auto simp: initialize_node_def ebind_Inr_iff split: prod.splits)
  note c' = set_node_roi_setup [OF c]
  note d' = compute_node_score_setup [OF d]
  note e' = set_node_score_setup [OF e]
  note f' = set_node_labels_setup [OF f]
  show "same_setup s s'"
    using same_setup_trans [OF same_setup_trans [OF same_setup_trans [OF c'(1) d'(1)] e'(1)] f'(1)] .
  show "weight (rag s') = weight (rag s)" using c'(4) d'(2) e'(4) f'(3) by simp
  show "node (rag s') w = node (rag s) w" if "w \<noteq> u" for w
    using c'(5) [OF that] d'(2) e'(5) [OF that] f'(4) [OF that] by simp
  show "voxels_of (fragments s) u \<noteq> []" by (rule slice_to_roi_tight(1) [OF a])
  have "node_roi s' u = Inr roi"
    using c'(3) d'(2) e'(6) f'(5) by (simp add: node_roi_def)
  with b slice_to_roi_tight(2) [OF a, of s]
  show "\<exists>r. node_roi s' u = Inr r \<and>
         snap_to_grid (tight_bounding_box (fragments s) u)
           (replicate (length (shape (fragments s))) (downsample (lsd_extractor s))) = Inr r"
    by simp
qed



lemma initialize_nodes_result:
  assumes "initialize_nodes s us = Inr s'" "distinct us"
  shows "same_setup s s' \<and> weight (rag s') = weight (rag s) \<and>
         (\<forall>w. w \<notin> set us \<longrightarrow> node (rag s') w = node (rag s) w) \<and>
         (\<forall>u \<in> set us. voxels_of (fragments s) u \<noteq> [] \<and>
            (\<exists>r. node_roi s' u = Inr r \<and>
               snap_to_grid (tight_bounding_box (fragments s) u)
                 (replicate (length (shape (fragments s))) (downsample (lsd_extractor s))) = Inr r))"
  using assms
proof (induction us arbitrary: s)
  case Nil
  then show ?case by (simp add: same_setup_refl)
next
  case (Cons u us)
  from Cons.prems obtain s1 where
    a: "initialize_node s u = Inr s1" and b: "initialize_nodes s1 us = Inr s'"
    by (auto simp: ebind_Inr_iff)
  note r = initialize_node_result [OF a]
  from Cons.prems have d: "distinct us" "u \<notin> set us" by auto
  note ih = Cons.IH [OF b d(1)]
  from r(1) have fr: "fragments s1 = fragments s" "lsd_extractor s1 = lsd_extractor s"
    by (simp_all add: same_setup_def)
  have 1: "same_setup s s'" using same_setup_trans [OF r(1)] ih by blast
  have 2: "weight (rag s') = weight (rag s)" using r(2) ih by simp
  have 3: "\<forall>w. w \<notin> set (u # us) \<longrightarrow> node (rag s') w = node (rag s) w"
    using r(3) ih by auto
  have "node_roi s' u = node_roi s1 u" using ih d(2) by (simp add: node_roi_def)
  with r(4,5) have 4: "voxels_of (fragments s) u \<noteq> [] \<and>
            (\<exists>r. node_roi s' u = Inr r \<and>
               snap_to_grid (tight_bounding_box (fragments s) u)
                 (replicate (length (shape (fragments s))) (downsample (lsd_extractor s))) = Inr r)"
    by simp
  from 1 2 3 4 ih fr show ?case by simp
qed


lemma RAG_nodes:
  "set (node_ids (RAG img k)) = elems img ` {p. in_range (shape img) p}"
  "dom (node (RAG img k)) = set (node_ids (RAG img k))"
  "distinct (node_ids (RAG img k))"
  by (auto simp: RAG_def set_indices split: if_splits)

lemma RAG_node_voxels:
  "u \<in> set (node_ids (RAG img k)) \<longleftrightarrow> voxels_of img u \<noteq> []"
  by (auto simp: RAG_nodes(1) voxels_of_def filter_empty_conv set_indices)










lemma compute_edge_score_state:
  assumes "compute_edge_score s u v = Inr (w, s')"
  shows "s' = s"
  using assms
  by (auto simp: compute_edge_score_def ebind_Inr_iff Let_def split: prod.splits if_splits)

lemma initialize_edge_result:
  assumes "initialize_edge s e = Inr s'"
  shows "same_setup s s'" "lsds s' = lsds s" "node (rag s') = node (rag s)"
proof -
  from assms obtain w s1 where a: "compute_edge_score s (fst e) (snd e) = Inr (w, s1)"
    and b: "set_edge_weight s1 (fst e) (snd e) w = Inr s'"
    by (auto simp: initialize_edge_def score_merge_def ebind_Inr_iff split: prod.splits)
  from compute_edge_score_state [OF a] b have c: "set_edge_weight s (fst e) (snd e) w = Inr s'"
    by simp
  show "same_setup s s'" "lsds s' = lsds s" "node (rag s') = node (rag s)"
    using set_edge_weight_setup [OF c] by simp_all
qed

lemma initialize_edges_result:
  assumes "initialize_edges s es = Inr s'"
  shows "same_setup s s' \<and> lsds s' = lsds s \<and> node (rag s') = node (rag s)"
  using assms
proof (induction es arbitrary: s)
  case Nil
  then show ?case by (simp add: same_setup_refl)
next
  case (Cons e es)
  from Cons.prems obtain s1 where
    a: "initialize_edge s e = Inr s1" and b: "initialize_edges s1 es = Inr s'"
    by (auto simp: ebind_Inr_iff)
  from initialize_edge_result [OF a] Cons.IH [OF b] same_setup_trans show ?case
    by auto
qed

lemma init_result:
  assumes "init frags target ext vs = Inr s"
  shows "segmentation s = frags" "fragments s = frags" "lsd_extractor s = ext"
    "target_lsds s = target" "shape (lsds s) = shape target"
    "node_ids (rag s) = node_ids (RAG frags 2)" "edge_ids (rag s) = edge_ids (RAG frags 2)"
    "\<forall>u \<in> set (node_ids (RAG frags 2)). \<exists>r. node_roi s u = Inr r \<and>
        snap_to_grid (tight_bounding_box frags u)
          (replicate (length (shape frags)) (downsample ext)) = Inr r"
proof -
  define s0 where "s0 = \<lparr>segmentation = np_array frags, lsds = np_zeros_like target,
        fragments = frags, target_lsds = target, lsd_extractor = ext,
        self_context = get_context ext,
        voxel_size = (case vs of None \<Rightarrow> replicate (length (shape frags)) 1 | Some v \<Rightarrow> v),
        rag = RAG frags 2\<rparr>"
  from assms obtain s1 where
    a: "initialize_nodes s0 (node_ids (RAG frags 2)) = Inr s1"
    and b: "initialize_edges s1 (edge_ids (rag s1)) = Inr s"
    by (auto simp: init_def initialize_rag_def Let_def ebind_Inr_iff s0_def)
  note n = initialize_nodes_result [OF a RAG_nodes(3)]
  note e = initialize_edges_result [OF b]
  from n e have ss: "same_setup s0 s" using same_setup_trans by blast
  then show "segmentation s = frags" "fragments s = frags" "lsd_extractor s = ext"
    "target_lsds s = target" "shape (lsds s) = shape target"
    "node_ids (rag s) = node_ids (RAG frags 2)" "edge_ids (rag s) = edge_ids (RAG frags 2)"
    by (simp_all add: same_setup_def s0_def np_array_def np_zeros_like_def)
  have "node_roi s u = node_roi s1 u" for u using e by (simp add: node_roi_def)
  with n show "\<forall>u \<in> set (node_ids (RAG frags 2)). \<exists>r. node_roi s u = Inr r \<and>
        snap_to_grid (tight_bounding_box frags u)
          (replicate (length (shape frags)) (downsample ext)) = Inr r"
    by (simp add: s0_def)
qed

lemma merge_nodes_regions:
  assumes "merge_nodes s u v = Inr s'"
  shows "\<exists>ru rv. node_roi s u = Inr ru \<and> node_roi s v = Inr rv \<and>
           node_roi s' v = Inr (union_roi ru rv) \<and>
           (\<forall>w. w \<noteq> v \<longrightarrow> node_roi s' w = node_roi s w) \<and>
           node_ids (rag s') = node_ids (rag s)"
proof -
  from assms obtain s1 lsds_new ru rv s3 x where
    seg: "merge_segmentation s u v = Inr s1" and
    nu: "node_roi (s1\<lparr>lsds := lsds_new\<rparr>) u = Inr ru" and
    nv: "node_roi (s1\<lparr>lsds := lsds_new\<rparr>) v = Inr rv" and
    roi: "set_node_roi (s1\<lparr>lsds := lsds_new\<rparr>) v (union_roi ru rv) = Inr s3" and
    fin: "set_node_score s3 v x = Inr s'"
    by (auto simp: merge_nodes_def ebind_Inr_iff Let_def split: prod.splits)
  have r: "rag (s1\<lparr>lsds := lsds_new\<rparr>) = rag s"
    using merge_segmentation_rag [OF seg] by simp
  then have c: "node_roi (s1\<lparr>lsds := lsds_new\<rparr>) w = node_roi s w" for w
    by (simp add: node_roi_def)
  note a = set_node_roi_setup [OF roi]
  note b = set_node_score_setup [OF fin]
  have "node_roi s' v = Inr (union_roi ru rv)" using a(3) b(6) by simp
  moreover have "node_roi s' w = node_roi s w" if "w \<noteq> v" for w
    using a(5) [OF that] b(6) c [of w] by (simp add: node_roi_def)
  moreover have "node_ids (rag s') = node_ids (rag s)"
    using a(1) b(1) r by (simp add: same_setup_def)
  ultimately show ?thesis using nu nv c by auto
qed

lemma merge_nodes_segmentation:
  assumes "merge_nodes s u v = Inr s'" "node_roi s u = Inr ru"
    "wf_roi (length (shape (segmentation s))) ru" "nonneg_roi ru"
  shows "segmentation s' = relabel_in (segmentation s) ru u v"
proof -
  from merge_nodes_steps [OF assms(1)] obtain s1 where
    "merge_segmentation s u v = Inr s1" "segmentation s' = segmentation s1" by blast
  with merge_segmentation_eq [OF assms(2-4), of v] show ?thesis by simp
qed

lemma merge_nodes_consistent:
  assumes m: "merge_nodes s u v = Inr s'" and uv: "u \<in> live" "v \<in> live" "u \<noteq> v"
    and lab: "\<forall>p. in_range (shape (segmentation s)) p \<longrightarrow> elems (segmentation s) p \<in> live"
    and reg: "\<forall>w \<in> live. \<exists>r. node_roi s w = Inr r \<and> good_region s w r"
  shows "(\<forall>p. in_range (shape (segmentation s')) p \<longrightarrow> elems (segmentation s') p \<in> live - {u})"
    and "(\<forall>w \<in> live - {u}. \<exists>r. node_roi s' w = Inr r \<and> good_region s' w r)"
proof -
  let ?n = "length (shape (segmentation s))"
  from merge_nodes_regions [OF m] obtain ru rv where
    r: "node_roi s u = Inr ru" "node_roi s v = Inr rv" "node_roi s' v = Inr (union_roi ru rv)"
    "\<And>w. w \<noteq> v \<Longrightarrow> node_roi s' w = node_roi s w"
    by blast
  from reg uv r have gu: "good_region s u ru" and gv: "good_region s v rv" by auto
  then have wu: "wf_roi ?n ru" "nonneg_roi ru" and wv: "wf_roi ?n rv" "nonneg_roi rv"
    by (simp_all add: good_region_def)
  note sg = merge_nodes_segmentation [OF m r(1) wu]
  have sh: "shape (segmentation s') = shape (segmentation s)" by (simp add: sg relabel_in_def)
  have el: "elems (segmentation s') p = (if elems (segmentation s) p = u then v else elems (segmentation s) p)"
    if "in_range (shape (segmentation s)) p" for p
    using that gu by (auto simp: sg relabel_in_def good_region_def)
  show "\<forall>p. in_range (shape (segmentation s')) p \<longrightarrow> elems (segmentation s') p \<in> live - {u}"
    unfolding sh using el lab uv by auto
  show "\<forall>w \<in> live - {u}. \<exists>r. node_roi s' w = Inr r \<and> good_region s' w r"
  proof
    fix w assume w: "w \<in> live - {u}"
    show "\<exists>r. node_roi s' w = Inr r \<and> good_region s' w r"
    proof (cases "w = v")
      case True
      have "good_region s' v (union_roi ru rv)"
        unfolding good_region_def sh
      proof (intro conjI allI impI)
        show "wf_roi ?n (union_roi ru rv)" by (rule wf_roi_union [OF wu(1) wv(1)])
        show "nonneg_roi (union_roi ru rv)" by (rule nonneg_roi_union [OF wu(1) wv(1) wu(2) wv(2)])
        fix p assume p: "in_range (shape (segmentation s)) p \<and> elems (segmentation s') p = v"
        with el [of p] have "elems (segmentation s) p = u \<or> elems (segmentation s) p = v"
          by (auto split: if_splits)
        with p gu gv have "roi_contains ru p \<or> roi_contains rv p"
          by (auto simp: good_region_def)
        then show "roi_contains (union_roi ru rv) p" by (rule roi_contains_union [OF wu(1) wv(1)])
      qed
      with r(3) True show ?thesis by simp
    next
      case False
      from reg w obtain rw where rw: "node_roi s w = Inr rw" "good_region s w rw" by auto
      have "good_region s' w rw"
        using rw(2) el False w unfolding good_region_def sh
        by (auto split: if_splits)
      with r(4) [OF False] rw(1) show ?thesis by simp
    qed
  qed
qed

lemma init_consistent:
  assumes "init frags target ext vs = Inr s" "0 < downsample ext"
  shows "\<forall>p. in_range (shape (segmentation s)) p \<longrightarrow> elems (segmentation s) p \<in> set (node_ids (rag s))"
    and "\<forall>w \<in> set (node_ids (rag s)). \<exists>r. node_roi s w = Inr r \<and> good_region s w r"
proof -
  note r = init_result [OF assms(1)]
  show "\<forall>p. in_range (shape (segmentation s)) p \<longrightarrow> elems (segmentation s) p \<in> set (node_ids (rag s))"
    unfolding r(1) r(6) RAG_nodes(1) by blast
  show "\<forall>w \<in> set (node_ids (rag s)). \<exists>r. node_roi s w = Inr r \<and> good_region s w r"
  proof
    fix w assume "w \<in> set (node_ids (rag s))"
    then have w: "w \<in> set (node_ids (RAG frags 2))" by (simp add: r(6))
    with r(8) obtain rw where rw: "node_roi s w = Inr rw"
      "snap_to_grid (tight_bounding_box frags w)
          (replicate (length (shape frags)) (downsample ext)) = Inr rw" by blast
    from w have "voxels_of frags w \<noteq> []" by (simp add: RAG_node_voxels)
    then have "good_region s w rw"
      using snapped_region_good [of s w "downsample ext" rw] rw(2) assms(2) by (simp add: r(1))
    with rw(1) show "\<exists>r. node_roi s w = Inr r \<and> good_region s w r" by blast
  qed
qed











lemma ex_merge_succeeds: "succeeds (merge_nodes ex_state 1 2)"
  by (simp add: merge_nodes_def merge_segmentation_def get_lsds_edge_rois_def
      ex_defs roi_defs array_defs graph_defs total_roi_def Let_def)

section \<open>Score additivity of a merge\<close>

text \<open>
  Claim C1. Whenever \<open>merge_nodes\<close> merges \<open>u\<close> into \<open>v\<close>, both nodes carried a score and the
  edge between them a weight \<open>w\<close> before the merge, and the score of the surviving node \<open>v\<close>
  after the merge is the score of \<open>u\<close> before plus the score of \<open>v\<close> before plus \<open>w\<close>. Scores
  are real numbers here, so the sum is exact.
\<close>

theorem merge_nodes_score_additive:
  assumes "merge_nodes s u v = Inr s'"
  shows "\<exists>score_u score_v w.
           node_score s u = Inr score_u \<and> node_score s v = Inr score_v \<and>
           edge_weight s u v = Inr w \<and>
           node_score s' v = Inr (score_u + score_v + w)"
proof -
  from assms obtain s1 lsds_new r s3 score_v score_u w where
    seg: "merge_segmentation s u v = Inr s1" and
    roi: "set_node_roi (s1\<lparr>lsds := lsds_new\<rparr>) v r = Inr s3" and
    sv: "node_score s3 v = Inr score_v" and
    su: "node_score s3 u = Inr score_u" and
    w: "edge_weight s3 u v = Inr w" and
    fin: "set_node_score s3 v (score_v + score_u + w) = Inr s'"
    by (auto simp: merge_nodes_def ebind_Inr_iff Let_def split: prod.splits)
  have r: "rag (s1\<lparr>lsds := lsds_new\<rparr>) = rag s"
    using merge_segmentation_rag [OF seg] by simp
  have "node_score s v = Inr score_v"
    using sv set_node_roi_score [OF roi] node_score_cong [OF r] by simp
  moreover have "node_score s u = Inr score_u"
    using su set_node_roi_score [OF roi] node_score_cong [OF r] by simp
  moreover have "edge_weight s u v = Inr w"
    using w set_node_roi_weight [OF roi] edge_weight_cong [OF r] by simp
  moreover have "node_score s' v = Inr (score_u + score_v + w)"
    using set_node_score_score [OF fin] by (simp add: add.commute)
  ultimately show ?thesis by blast
qed

theorem merge_nodes_score_additive_witness:
  "\<exists>s'. merge_nodes ex_state 1 2 = Inr s' \<and> node_score s' 2 = Inr (8 + 8 + 0)"
proof -
  obtain s' where m: "merge_nodes ex_state 1 2 = Inr s'"
    using ex_merge_succeeds by (auto simp: succeeds_iff)
  have "node_score ex_state 1 = Inr 8" "node_score ex_state 2 = Inr 8"
    "edge_weight ex_state 1 2 = Inr 0"
    by (simp_all add: ex_defs graph_defs)
  with merge_nodes_score_additive [OF m] have "node_score s' 2 = Inr (8 + 8 + 0)"
    by auto
  with m show ?thesis by blast
qed

section \<open>Edge scoring is a pure read\<close>

lemma ex_edge_score_succeeds: "succeeds (compute_edge_score ex_state 1 2)"
  by (simp add: compute_edge_score_def get_lsds_edge_rois_def
      ex_defs roi_defs array_defs graph_defs total_roi_def Let_def)

text \<open>
  Claim C4. \<open>compute_edge_score\<close> relabels a copy of the segmentation slice and zeroes
  arrays of its own, so the state it returns is the state it was given: the live
  segmentation, the live and the target descriptors and every node and edge attribute are
  unchanged. Scoring the same edge again, with no merge in between, returns the same value.
\<close>

theorem compute_edge_score_pure:
  assumes "compute_edge_score s u v = Inr (w, s')"
  shows "s' = s \<and> compute_edge_score s' u v = Inr (w, s')"
proof -
  from assms have "s' = s"
    by (auto simp: compute_edge_score_def ebind_Inr_iff Let_def split: prod.splits if_splits)
  with assms show ?thesis by simp
qed

theorem compute_edge_score_pure_witness:
  "\<exists>w. compute_edge_score ex_state 1 2 = Inr (w, ex_state)"
proof -
  obtain w s' where e: "compute_edge_score ex_state 1 2 = Inr (w, s')"
    using ex_edge_score_succeeds by (auto simp: succeeds_iff)
  from compute_edge_score_pure [OF e] e show ?thesis by auto
qed

section \<open>An empty change region\<close>

lemma zc_rois: "get_lsds_edge_rois zero_context_state 1 2 = Inl TypeError"
  by (simp add: get_lsds_edge_rois_def zero_context_state_def
      ex_defs roi_defs array_defs graph_defs total_roi_def Let_def)

lemma zc_merge: "merge_nodes zero_context_state 1 2 = Inl TypeError"
  by (simp add: merge_nodes_def merge_segmentation_def get_lsds_edge_rois_def zero_context_state_def
      ex_defs roi_defs array_defs graph_defs total_roi_def Let_def)

lemma zc_score: "compute_edge_score zero_context_state 1 2 = Inl TypeError"
  by (simp add: compute_edge_score_def get_lsds_edge_rois_def zero_context_state_def
      ex_defs roi_defs array_defs graph_defs total_roi_def Let_def)

lemma zc_change:
  "change_region zero_context_state [0]
     \<lparr>roi_offset = [0], roi_shape = [2]\<rparr> \<lparr>roi_offset = [2], roi_shape = [2]\<rparr> = None"
  by (simp add: change_region_def zero_context_state_def
      ex_defs roi_defs total_roi_def)

text \<open>
  Claim C7, as the specification states it, fails: with an extractor context of zero the
  regions of the two neighbouring fragments of the example do not overlap, the change
  region is empty, and the derivation, the merge and the edge scoring fail with the
  \<open>TypeError\<close> of the region library, not with \<open>InvalidRegion\<close>.
\<close>

theorem empty_region_counterexample:
  "change_region zero_context_state [0]
     \<lparr>roi_offset = [0], roi_shape = [2]\<rparr> \<lparr>roi_offset = [2], roi_shape = [2]\<rparr> = None \<and>
   get_lsds_edge_rois zero_context_state 1 2 = Inl TypeError \<and>
   merge_nodes zero_context_state 1 2 = Inl TypeError \<and>
   compute_edge_score zero_context_state 1 2 = Inl TypeError \<and>
   TypeError \<noteq> InvalidRegion"
  using zc_change zc_rois zc_merge zc_score by simp

text \<open>
  Claim C7, amended. The source makes no emptiness check and has no \<open>InvalidRegion\<close>
  error. For two nodes with well-formed stored regions of non-negative offsets under a
  well-formed geometry: whenever the change region is empty, the derivation of the two
  regions fails with the \<open>TypeError\<close> that growing the empty region raises, and the edge
  scoring and the merge fail with it. Nothing proceeds with the empty region. Whenever
  the change region is not empty, the derivation returns it, and the context region
  with it is not empty either.
\<close>

theorem empty_change_region_fails:
  assumes "node_roi s u = Inr roi_u" "node_roi s v = Inr roi_v"
    and "wf_roi (length (shape (segmentation s))) roi_u"
        "wf_roi (length (shape (segmentation s))) roi_v"
    and "nonneg_roi roi_u" "nonneg_roi roi_v"
    and "wf_geometry s"
    and "context_in_voxels (self_context s) (voxel_size s) = Inr ctx"
  shows "(change_region s ctx roi_u roi_v = None \<longrightarrow>
            get_lsds_edge_rois s u v = Inl TypeError \<and>
            compute_edge_score s u v = Inl TypeError \<and>
            merge_nodes s u v = Inl TypeError) \<and>
         (\<forall>change_roi. change_region s ctx roi_u roi_v = Some change_roi \<longrightarrow>
            (\<exists>context_roi. get_lsds_edge_rois s u v = Inr (change_roi, context_roi) \<and>
               \<not> roi_empty change_roi \<and> \<not> roi_empty context_roi))"
proof (intro conjI impI allI)
  assume e: "change_region s ctx roi_u roi_v = None"
  show d: "get_lsds_edge_rois s u v = Inl TypeError"
    by (rule get_lsds_edge_rois_empty [OF assms(1,2,8) e])
  then show "compute_edge_score s u v = Inl TypeError"
    by (simp add: compute_edge_score_def)
  note m = merge_segmentation_eq [OF assms(1,3,5), of v]
  from get_lsds_edge_rois_cong [OF merge_segmentation_frame(1-4) [OF m]] d
  have "get_lsds_edge_rois (s\<lparr>segmentation := relabel_in (segmentation s) roi_u u v\<rparr>) u v
          = Inl TypeError"
    by simp
  with m show "merge_nodes s u v = Inl TypeError" by (simp add: merge_nodes_def)
next
  fix change_roi assume c: "change_region s ctx roi_u roi_v = Some change_roi"
  from wf_geometry_context [OF assms(7)] assms(8) have
    l: "length ctx = length (shape (segmentation s))" "list_all (\<lambda>x. 0 \<le> x) ctx"
    by auto
  from assms(7) have "list_all (\<lambda>m. 0 \<le> m) (shape (segmentation s))"
    by (simp add: wf_geometry_def)
  with c l assms(3,4) have p: "wf_pair s ctx roi_u roi_v"
    and ch: "change_roi = change_roi_of s ctx roi_u roi_v"
    by (simp_all add: change_region_Some wf_pair_def)
  from get_lsds_edge_rois_eq [OF assms(1,2,8) p] change_roi_wf(4) [OF p] context_roi_wf(3) [OF p]
  show "\<exists>context_roi. get_lsds_edge_rois s u v = Inr (change_roi, context_roi) \<and>
          \<not> roi_empty change_roi \<and> \<not> roi_empty context_roi"
    unfolding ch by blast
qed

theorem empty_change_region_fails_witness:
  "get_lsds_edge_rois zero_context_state 1 2 = Inl TypeError \<and>
   compute_edge_score zero_context_state 1 2 = Inl TypeError \<and>
   merge_nodes zero_context_state 1 2 = Inl TypeError \<and>
   (\<exists>context_roi. get_lsds_edge_rois ex_state 1 2
        = Inr (\<lparr>roi_offset = [1], roi_shape = [2]\<rparr>, context_roi) \<and>
      \<not> roi_empty context_roi)"
proof -
  have z: "node_roi zero_context_state 1 = Inr \<lparr>roi_offset = [0], roi_shape = [2]\<rparr>"
    "node_roi zero_context_state 2 = Inr \<lparr>roi_offset = [2], roi_shape = [2]\<rparr>"
    "wf_roi (length (shape (segmentation zero_context_state))) \<lparr>roi_offset = [0], roi_shape = [2]\<rparr>"
    "wf_roi (length (shape (segmentation zero_context_state))) \<lparr>roi_offset = [2], roi_shape = [2]\<rparr>"
    "nonneg_roi \<lparr>roi_offset = [0], roi_shape = [2]\<rparr>" "nonneg_roi \<lparr>roi_offset = [2], roi_shape = [2]\<rparr>"
    "wf_geometry zero_context_state"
    "context_in_voxels (self_context zero_context_state) (voxel_size zero_context_state) = Inr [0]"
    by (simp_all add: zero_context_state_def ex_defs graph_defs wf_roi_def nonneg_roi_def
        wf_geometry_def)
  have x: "node_roi ex_state 1 = Inr \<lparr>roi_offset = [0], roi_shape = [2]\<rparr>"
    "node_roi ex_state 2 = Inr \<lparr>roi_offset = [2], roi_shape = [2]\<rparr>"
    "wf_roi (length (shape (segmentation ex_state))) \<lparr>roi_offset = [0], roi_shape = [2]\<rparr>"
    "wf_roi (length (shape (segmentation ex_state))) \<lparr>roi_offset = [2], roi_shape = [2]\<rparr>"
    "nonneg_roi \<lparr>roi_offset = [0], roi_shape = [2]\<rparr>" "nonneg_roi \<lparr>roi_offset = [2], roi_shape = [2]\<rparr>"
    "wf_geometry ex_state"
    "context_in_voxels (self_context ex_state) (voxel_size ex_state) = Inr [1]"
    by (simp_all add: ex_defs graph_defs wf_roi_def nonneg_roi_def wf_geometry_def)
  have c: "change_region ex_state [1]
     \<lparr>roi_offset = [0], roi_shape = [2]\<rparr> \<lparr>roi_offset = [2], roi_shape = [2]\<rparr>
       = Some \<lparr>roi_offset = [1], roi_shape = [2]\<rparr>"
    by (simp add: change_region_def ex_defs roi_defs total_roi_def)
  from empty_change_region_fails [OF z] zc_change empty_change_region_fails [OF x] c
  show ?thesis by blast
qed

section \<open>The change region lies inside the context region\<close>

lemma ex_edge_rois:
  "get_lsds_edge_rois ex_state 1 2 =
     Inr (\<lparr>roi_offset = [1], roi_shape = [2]\<rparr>, \<lparr>roi_offset = [0], roi_shape = [4]\<rparr>)"
  by (simp add: get_lsds_edge_rois_def ex_defs roi_defs graph_defs total_roi_def Let_def)

text \<open>
  Claim C10. For two nodes with well-formed stored regions of non-negative offsets,
  under a geometry with non-negative context radii and positive voxel sizes, the pair
  that the derivation returns has the change region contained in the context region;
  the change region relative to the begin of the context region has no negative offset
  and ends inside the shape of the context region and inside the slice of the
  segmentation taken with the context region, and the change region itself ends inside
  the volume. (Stored regions of which one is empty, or whose grown regions do not
  overlap, give no pair: the derivation fails.)
\<close>

theorem change_roi_inside_context_roi:
  assumes "get_lsds_edge_rois s u v = Inr (change_roi, context_roi)"
    and "node_roi s u = Inr roi_u" "node_roi s v = Inr roi_v"
    and "wf_roi (length (shape (segmentation s))) roi_u"
        "wf_roi (length (shape (segmentation s))) roi_v"
    and "nonneg_roi roi_u" "nonneg_roi roi_v"
    and "wf_geometry s"
  shows "(\<forall>p. roi_contains change_roi p \<longrightarrow> roi_contains context_roi p) \<and>
         nonneg_roi (roi_sub change_roi (get_begin context_roi)) \<and>
         roi_within (roi_sub change_roi (get_begin context_roi)) (roi_shape context_roi) \<and>
         (\<exists>vw. getitem (segmentation s) (to_slices context_roi) = Inr vw \<and>
               roi_within (roi_sub change_roi (get_begin context_roi)) (v_shape vw)) \<and>
         roi_within change_roi (shape (segmentation s))"
proof -
  let ?n = "length (shape (segmentation s))"
  let ?rel = "roi_sub change_roi (get_begin context_roi)"
  from get_lsds_edge_rois_wf [OF assms(1-5,8)] obtain ctx where
    p: "wf_pair s ctx roi_u roi_v" and ch: "change_roi = change_roi_of s ctx roi_u roi_v"
    and cx: "context_roi = context_roi_of s ctx roi_u roi_v"
    by blast
  note chw = change_roi_wf [OF p, folded ch]
  note cxw = context_roi_wf(1) [OF p, folded cx]
  note cxn = context_roi_wf(2) [OF p assms(6,7), folded cx]
  note lch = wf_roi_lengths [OF chw(1)] note lcx = wf_roi_lengths [OF cxw]
  have nest: "roi_offset context_roi ! i \<le> roi_offset change_roi ! i"
    "roi_offset change_roi ! i + roi_shape change_roi ! i
       \<le> roi_offset context_roi ! i + roi_shape context_roi ! i" if "i < ?n" for i
    using change_roi_nested [OF p that] ch cx by simp_all
  have pos: "0 < roi_shape change_roi ! i" if "i < ?n" for i
    by (rule wf_roi_nonempty_pos [OF chw(1) chw(4) that])
  have inside: "roi_offset change_roi ! i + roi_shape change_roi ! i \<le> shape (segmentation s) ! i"
    if "i < ?n" for i
    using chw(3) roi_within_iff [of change_roi ?n "shape (segmentation s)"] lch that by simp
  have lrel: "length (roi_offset ?rel) = ?n" "length (roi_shape ?rel) = ?n"
    using lch lcx by (simp_all add: roi_sub_def get_begin_def)
  have relo: "roi_offset ?rel ! i = roi_offset change_roi ! i - roi_offset context_roi ! i"
    and rels: "roi_shape ?rel ! i = roi_shape change_roi ! i" if "i < ?n" for i
    using that lch lcx by (simp_all add: roi_sub_def get_begin_def)
  have 1: "\<forall>p. roi_contains change_roi p \<longrightarrow> roi_contains context_roi p"
    using change_roi_contains(1) [OF p] ch cx by simp
  have 2: "nonneg_roi ?rel"
    unfolding nonneg_roi_nth using lrel relo nest(1) by simp
  have 3: "roi_within ?rel (roi_shape context_roi)"
    unfolding roi_within_iff [OF lrel conjunct2 [OF lcx]]
    using relo rels nest(2) by fastforce
  from getitem_roi [OF refl cxw cxn] obtain vw where
    g: "getitem (segmentation s) (to_slices context_roi) = Inr vw"
    and vs: "\<And>i. i < ?n \<Longrightarrow> v_shape vw ! i =
        max 0 (min (roi_offset context_roi ! i + roi_shape context_roi ! i) (shape (segmentation s) ! i)
               - min (roi_offset context_roi ! i) (shape (segmentation s) ! i))"
    and lv: "length (v_shape vw) = ?n"
    by blast
  have "roi_offset ?rel ! i + roi_shape ?rel ! i \<le> v_shape vw ! i" if "i < ?n" for i
    using vs [OF that] relo [OF that] rels [OF that] nest [OF that] pos [OF that] inside [OF that]
    by (auto simp: min_def max_def)
  then have 4: "roi_within ?rel (v_shape vw)"
    unfolding roi_within_iff [OF lrel lv] by blast
  from 1 2 3 4 g chw(3) show ?thesis by blast
qed

theorem change_roi_inside_context_roi_witness:
  "nonneg_roi (roi_sub \<lparr>roi_offset = [1], roi_shape = [2]\<rparr> (get_begin \<lparr>roi_offset = [0], roi_shape = [4]\<rparr>)) \<and>
   roi_within (roi_sub \<lparr>roi_offset = [1], roi_shape = [2]\<rparr> (get_begin \<lparr>roi_offset = [0], roi_shape = [4]\<rparr>))
     (roi_shape \<lparr>roi_offset = [0], roi_shape = [4]\<rparr>) \<and>
   roi_within \<lparr>roi_offset = [1], roi_shape = [2]\<rparr> (shape (segmentation ex_state))"
proof -
  have "node_roi ex_state 1 = Inr \<lparr>roi_offset = [0], roi_shape = [2]\<rparr>"
    "node_roi ex_state 2 = Inr \<lparr>roi_offset = [2], roi_shape = [2]\<rparr>"
    "wf_roi (length (shape (segmentation ex_state))) \<lparr>roi_offset = [0], roi_shape = [2]\<rparr>"
    "wf_roi (length (shape (segmentation ex_state))) \<lparr>roi_offset = [2], roi_shape = [2]\<rparr>"
    "nonneg_roi \<lparr>roi_offset = [0], roi_shape = [2]\<rparr>" "nonneg_roi \<lparr>roi_offset = [2], roi_shape = [2]\<rparr>"
    "wf_geometry ex_state"
    by (simp_all add: ex_defs graph_defs wf_roi_def nonneg_roi_def wf_geometry_def)
  from change_roi_inside_context_roi [OF ex_edge_rois this] show ?thesis by blast
qed

section \<open>Locality of a merge\<close>

text \<open>
  Claim C3. A merge of \<open>u\<close> into \<open>v\<close> changes the live descriptors only at voxels of the
  context region, and there only at voxels of the change region, and it changes the live
  segmentation only at voxels of the region stored for \<open>u\<close> before the merge. The shapes
  of both volumes stay as they are. The stored regions have one offset and one extent per
  axis, the offsets of the region of \<open>u\<close> are not negative, and the descriptor volumes have
  the segmentation's shape after their channel axis.
\<close>

theorem merge_nodes_locality:
  assumes "merge_nodes s u v = Inr s'"
    and "get_lsds_edge_rois s u v = Inr (change_roi, context_roi)"
    and "node_roi s u = Inr roi_u" "node_roi s v = Inr roi_v"
    and "wf_roi (length (shape (segmentation s))) roi_u"
        "wf_roi (length (shape (segmentation s))) roi_v"
    and "nonneg_roi roi_u"
    and "wf_geometry s" "wf_volumes s"
  shows "(\<forall>q. elems (lsds s') q \<noteq> elems (lsds s) q \<longrightarrow>
              q \<noteq> [] \<and> roi_contains context_roi (tl q) \<and> roi_contains change_roi (tl q)) \<and>
         (\<forall>p. elems (segmentation s') p \<noteq> elems (segmentation s) p \<longrightarrow> roi_contains roi_u p) \<and>
         shape (lsds s') = shape (lsds s) \<and> shape (segmentation s') = shape (segmentation s)"
proof -
  from merge_nodes_steps [OF assms(1)] assms(2) obtain s1 lsds_merged lsds_view m where
    a: "merge_segmentation s u v = Inr s1"
    and f: "getitem (lsds s) (Slice None None # to_slices change_roi) = Inr lsds_view"
    and g: "setitem_chan_mask (lsds s) lsds_view m lsds_merged = Inr (lsds s')"
    and sg: "segmentation s' = segmentation s1"
    by auto
  from get_lsds_edge_rois_wf [OF assms(2-6,8)] obtain ctx where
    p: "wf_pair s ctx roi_u roi_v" and ch: "change_roi = change_roi_of s ctx roi_u roi_v"
    and cx: "context_roi = context_roi_of s ctx roi_u roi_v"
    by blast
  note chw = change_roi_wf [OF p, folded ch]
  have 1: "q \<noteq> [] \<and> roi_contains context_roi (tl q) \<and> roi_contains change_roi (tl q)"
    if "elems (lsds s') q \<noteq> elems (lsds s) q" for q
  proof -
    from setitem_chan_mask_changed(2) [OF g that] have "in_view lsds_view q" .
    from lsds_view_roi [OF assms(9) chw(1,2) f this]
    have "q \<noteq> []" "roi_contains change_roi (tl q)" by blast+
    moreover from change_roi_contains(1) [OF p] this(2) have "roi_contains context_roi (tl q)"
      unfolding ch cx by blast
    ultimately show ?thesis by blast
  qed
  from merge_segmentation_eq [OF assms(3,5,7), of v] a
  have s1: "segmentation s1 = relabel_in (segmentation s) roi_u u v" by auto
  have 2: "roi_contains roi_u p" if "elems (segmentation s') p \<noteq> elems (segmentation s) p" for p
    using that unfolding sg s1 by (auto simp: relabel_in_def split: if_splits)
  have 3: "shape (lsds s') = shape (lsds s)" by (rule setitem_chan_mask_changed(1) [OF g])
  have 4: "shape (segmentation s') = shape (segmentation s)"
    unfolding sg s1 by (simp add: relabel_in_def)
  from 1 2 3 4 show ?thesis by blast
qed

theorem merge_nodes_locality_witness:
  "\<exists>s'. merge_nodes ex_state 1 2 = Inr s' \<and>
        elems (lsds s') [0, 0] = elems (lsds ex_state) [0, 0] \<and>
        elems (lsds s') [0, 3] = elems (lsds ex_state) [0, 3] \<and>
        elems (segmentation s') [2] = elems (segmentation ex_state) [2] \<and>
        shape (lsds s') = [1, 4] \<and> shape (segmentation s') = [4]"
proof -
  obtain s' where m: "merge_nodes ex_state 1 2 = Inr s'"
    using ex_merge_succeeds by (auto simp: succeeds_iff)
  have h: "node_roi ex_state 1 = Inr \<lparr>roi_offset = [0], roi_shape = [2]\<rparr>"
    "node_roi ex_state 2 = Inr \<lparr>roi_offset = [2], roi_shape = [2]\<rparr>"
    "wf_roi (length (shape (segmentation ex_state))) \<lparr>roi_offset = [0], roi_shape = [2]\<rparr>"
    "wf_roi (length (shape (segmentation ex_state))) \<lparr>roi_offset = [2], roi_shape = [2]\<rparr>"
    "nonneg_roi \<lparr>roi_offset = [0], roi_shape = [2]\<rparr>"
    "wf_geometry ex_state" "wf_volumes ex_state"
    by (simp_all add: ex_defs graph_defs wf_roi_def nonneg_roi_def wf_geometry_def wf_volumes_def)
  have n: "\<not> roi_contains \<lparr>roi_offset = [1], roi_shape = [2]\<rparr> (tl [0, 0])"
    "\<not> roi_contains \<lparr>roi_offset = [1], roi_shape = [2]\<rparr> (tl [0, 3])"
    "\<not> roi_contains \<lparr>roi_offset = [0], roi_shape = [2]\<rparr> [2]"
    by (simp_all add: roi_contains_def dims_def get_begin_def get_end_def)
  have "shape (lsds ex_state) = [1, 4]" "shape (segmentation ex_state) = [4]"
    by (simp_all add: ex_defs)
  with merge_nodes_locality [OF m ex_edge_rois h] n m show ?thesis by metis
qed

section \<open>The node score\<close>

text \<open>
  Claim C8. For a node \<open>u\<close> whose stored region bounds the voxels labelled \<open>u\<close> (as the
  regions of the initial graph do), \<open>compute_node_score\<close> returns the sum, over the
  voxels of the region that carry \<open>u\<close> and over the channels, of the squared difference
  between the target descriptors and the descriptors the extractor returns for the label
  \<open>u\<close> on the slice of the segmentation. Its one effect on the state is on the live
  descriptors: at every index of the volume whose voxel carries \<open>u\<close> they now hold the
  extractor's output, and at every other index they are unchanged. The extractor is
  taken to return an array over the slice it was given, with the channels of the target.
\<close>

theorem compute_node_score_spec:
  assumes "node_roi s u = Inr roi"
    and "wf_roi (length (shape (segmentation s))) roi" "nonneg_roi roi" "wf_volumes s"
    and "getitem (segmentation s) (to_slices roi) = Inr seg_view"
    and "get_descriptors (lsd_extractor s) (read_view (segmentation s) seg_view) None [u]
           (voxel_size s) = Inr d"
    and "shape d = hd (shape (target_lsds s)) # v_shape seg_view"
    and "\<forall>p. in_range (shape (segmentation s)) p \<and> elems (segmentation s) p = u
             \<longrightarrow> roi_contains roi p"
  shows "compute_node_score s u =
     Inr (masked_sq_error (shape (target_lsds s))
            (\<lambda>q. roi_contains roi (tl q) \<and> elems (segmentation s) (tl q) = u)
            (elems (target_lsds s))
            (\<lambda>q. elems d (hd q # map2 (-) (tl q) (roi_offset roi))),
          s\<lparr>lsds := (lsds s)\<lparr>elems := (\<lambda>q.
              if in_range (shape (lsds s)) q \<and> elems (segmentation s) (tl q) = u
              then elems d (hd q # map2 (-) (tl q) (roi_offset roi))
              else elems (lsds s) q)\<rparr>\<rparr>)"
proof -
  let ?C = "hd (shape (target_lsds s))"
  let ?sh = "shape (segmentation s)"
  define cv where "cv = \<lparr>v_start = 0 # v_start seg_view, v_shape = ?C # v_shape seg_view\<rparr>"
  note sh = wf_volumes_shape [OF assms(4)]
  note cf = chan_view_facts [OF assms(5,2,3) sh(3) cv_def]
  let ?G = "\<lambda>q. (if elems (segmentation s) (map2 (+) (v_start seg_view) (tl (rel_index cv q))) = u
             then elems (target_lsds s) q - elems d (rel_index cv q) else 0)\<^sup>2"
  have ins: "view_inside cv (?C # ?sh)"
    unfolding cv_def
    by (rule view_inside_chan [OF getitem_roi_inside [OF refl assms(2,3) sh(4) assms(5)] sh(3)])
  have "(\<Sum>p | in_range (v_shape cv) p.
            (if elems (segmentation s) (map2 (+) (v_start seg_view) (tl p)) = u
             then elems (target_lsds s) (map2 (+) (v_start cv) p) - elems d p else 0)\<^sup>2)
      = (\<Sum>p | in_range (v_shape cv) p. ?G (map2 (+) (v_start cv) p))"
  proof (rule sum.cong [OF refl])
    fix p assume "p \<in> {p. in_range (v_shape cv) p}"
    then have "length p = length (v_start cv)"
      using ins by (simp add: in_range_iff view_inside_def)
    from rel_abs_index [OF this]
    show "(if elems (segmentation s) (map2 (+) (v_start seg_view) (tl p)) = u
             then elems (target_lsds s) (map2 (+) (v_start cv) p) - elems d p else 0)\<^sup>2
          = ?G (map2 (+) (v_start cv) p)" by simp
  qed
  also have "\<dots> = (\<Sum>q | in_range (?C # ?sh) q \<and> in_view cv q. ?G q)"
    by (rule view_sum_reindex [OF ins])
  also have "\<dots> = (\<Sum>q | in_range (?C # ?sh) q \<and> in_view cv q.
       if elems (segmentation s) (tl q) = u
       then (elems (target_lsds s) q - elems d (hd q # map2 (-) (tl q) (roi_offset roi)))\<^sup>2 else 0)"
  proof (rule sum.cong [OF refl])
    fix q assume "q \<in> {q. in_range (?C # ?sh) q \<and> in_view cv q}"
    then have v: "in_view cv q" by simp
    have a: "map2 (+) (v_start seg_view) (tl (rel_index cv q)) = tl q" by (rule cf(3) [OF v])
    have b: "rel_index cv q = hd q # map2 (-) (tl q) (roi_offset roi)" by (rule cf(2) [OF v])
    show "?G q = (if elems (segmentation s) (tl q) = u
       then (elems (target_lsds s) q - elems d (hd q # map2 (-) (tl q) (roi_offset roi)))\<^sup>2 else 0)"
      unfolding a unfolding b by simp
  qed
  also have "\<dots> = (\<Sum>q | in_range (?C # ?sh) q \<and>
       (roi_contains roi (tl q) \<and> elems (segmentation s) (tl q) = u).
       (elems (target_lsds s) q - elems d (hd q # map2 (-) (tl q) (roi_offset roi)))\<^sup>2)"
  proof -
    have fin: "finite {q. in_range (?C # ?sh) q \<and> in_view cv q}" by simp
    have eq: "{q. in_range (?C # ?sh) q \<and> roi_contains roi (tl q) \<and> elems (segmentation s) (tl q) = u}
       = {q \<in> {q. in_range (?C # ?sh) q \<and> in_view cv q}. elems (segmentation s) (tl q) = u}"
      using cf(1) by auto
    show ?thesis
      unfolding eq by (rule sum.inter_filter [OF fin, symmetric])
  qed
  finally have score: "(\<Sum>p | in_range (v_shape cv) p.
            (if elems (segmentation s) (map2 (+) (v_start seg_view) (tl p)) = u
             then elems (target_lsds s) (map2 (+) (v_start cv) p) - elems d p else 0)\<^sup>2)
      = masked_sq_error (shape (target_lsds s))
            (\<lambda>q. roi_contains roi (tl q) \<and> elems (segmentation s) (tl q) = u)
            (elems (target_lsds s))
            (\<lambda>q. elems d (hd q # map2 (-) (tl q) (roi_offset roi)))"
    unfolding masked_sq_error_set using sh(1) by simp
  have upd: "(\<lambda>q. if in_view cv q \<and>
                 elems (segmentation s) (map2 (+) (v_start seg_view) (tl (rel_index cv q))) = u
              then elems d (rel_index cv q) else elems (lsds s) q)
           = (\<lambda>q. if in_range (shape (lsds s)) q \<and> elems (segmentation s) (tl q) = u
              then elems d (hd q # map2 (-) (tl q) (roi_offset roi))
              else elems (lsds s) q)"
  proof (intro ext)
    fix q
    show "(if in_view cv q \<and>
                 elems (segmentation s) (map2 (+) (v_start seg_view) (tl (rel_index cv q))) = u
              then elems d (rel_index cv q) else elems (lsds s) q)
           = (if in_range (shape (lsds s)) q \<and> elems (segmentation s) (tl q) = u
              then elems d (hd q # map2 (-) (tl q) (roi_offset roi))
              else elems (lsds s) q)"
    proof (cases "in_view cv q")
      case True
      with cf(1) [of q] have "in_range (shape (lsds s)) q" using sh(2) by simp
      have a: "map2 (+) (v_start seg_view) (tl (rel_index cv q)) = tl q" by (rule cf(3) [OF True])
      have b: "rel_index cv q = hd q # map2 (-) (tl q) (roi_offset roi)" by (rule cf(2) [OF True])
      from True \<open>in_range (shape (lsds s)) q\<close> show ?thesis unfolding a unfolding b by simp
    next
      case False
      have "\<not> (in_range (shape (lsds s)) q \<and> elems (segmentation s) (tl q) = u)"
      proof
        assume a: "in_range (shape (lsds s)) q \<and> elems (segmentation s) (tl q) = u"
        then have "in_range ?sh (tl q)" using sh(2) by (auto simp: in_range_Cons)
        with a assms(8) have "roi_contains roi (tl q)" by blast
        with a cf(1) [of q] sh(2) False show False by simp
      qed
      with False show ?thesis by auto
    qed
  qed
  show ?thesis
    unfolding compute_node_score_eq [OF assms(1-7) cv_def] score upd ..
qed

theorem compute_node_score_spec_witness:
  "\<exists>s'. compute_node_score ex_state 1 = Inr (8, s') \<and>
        map (elems (lsds s')) [[0, 0], [0, 1], [0, 2], [0, 3]] = [1, 1, 1, 1] \<and>
        shape (lsds s') = [1, 4]"
proof -
  let ?roi = "\<lparr>roi_offset = [0], roi_shape = [2]\<rparr>"
  let ?vw = "\<lparr>v_start = [0], v_shape = [2]\<rparr>"
  let ?seg = "read_view (segmentation ex_state) ?vw"
  let ?d = "\<lparr>shape = 1 # shape ?seg,
            elems = (\<lambda>q. if elems ?seg (map2 (+) (replicate (length (shape ?seg)) 0) (tl q)) \<in> set [1]
                         then 1 else 0 :: real)\<rparr>"
  have h: "node_roi ex_state 1 = Inr ?roi"
    "wf_roi (length (shape (segmentation ex_state))) ?roi" "nonneg_roi ?roi" "wf_volumes ex_state"
    "getitem (segmentation ex_state) (to_slices ?roi) = Inr ?vw"
    "get_descriptors (lsd_extractor ex_state) ?seg None [1] (voxel_size ex_state) = Inr ?d"
    "shape ?d = hd (shape (target_lsds ex_state)) # v_shape ?vw"
    by (simp_all add: ex_defs graph_defs wf_roi_def nonneg_roi_def wf_volumes_def
        getitem_def to_slices_def get_begin_def get_end_def clip_index_def read_view_def)
  have b: "\<forall>p. in_range (shape (segmentation ex_state)) p \<and> elems (segmentation ex_state) p = 1
             \<longrightarrow> roi_contains ?roi p"
  proof (intro allI impI, elim conjE)
    fix p assume "in_range (shape (segmentation ex_state)) p" "elems (segmentation ex_state) p = 1"
    then obtain x where p: "p = [x]" "0 \<le> x" "x < 4" "[1, 1, 2, 2] ! nat x = (1::int)"
      by (cases p) (auto simp: ex_defs in_range_def list_all2_Cons2)
    then have "x = 0 \<or> x = 1 \<or> x = 2 \<or> x = 3" by auto
    with p show "roi_contains ?roi p"
      by (auto simp: roi_contains_def dims_def get_begin_def get_end_def)
  qed
  have v: "masked_sq_error (shape (target_lsds ex_state))
            (\<lambda>q. roi_contains ?roi (tl q) \<and> elems (segmentation ex_state) (tl q) = 1)
            (elems (target_lsds ex_state))
            (\<lambda>q. elems ?d (hd q # map2 (-) (tl q) (roi_offset ?roi))) = 8"
    by (simp add: masked_sq_error_def ex_defs roi_contains_def dims_def get_begin_def get_end_def
        read_view_def upto.simps)
  show ?thesis
    unfolding compute_node_score_spec [OF h b] v
    by (simp add: ex_defs in_range_def read_view_def)
qed

section \<open>The edge score\<close>

text \<open>
  Claim C2. For two nodes with stored regions, \<open>compute_edge_score\<close> returns the merged
  score minus the separate score. Both are sums over the channels and over the voxels of
  the change region that carry \<open>u\<close> or \<open>v\<close> in the live segmentation. The separate score
  sums the squared difference between the target and the live descriptors; the merged
  score sums the squared difference between the target and the descriptors the extractor
  returns for the label \<open>v\<close> on a copy of the segmentation slice over the context region
  in which every \<open>u\<close> has been replaced by \<open>v\<close>. The extractor is taken to return an
  array over the change region, with the channels of the target.
\<close>

theorem compute_edge_score_spec:
  assumes "get_lsds_edge_rois s u v = Inr (change_roi, context_roi)"
    and "node_roi s u = Inr roi_u" "node_roi s v = Inr roi_v"
    and "wf_roi (length (shape (segmentation s))) roi_u"
        "wf_roi (length (shape (segmentation s))) roi_v"
    and "nonneg_roi roi_u" "nonneg_roi roi_v"
    and "wf_geometry s" "wf_volumes s"
    and "getitem (segmentation s) (to_slices context_roi) = Inr seg_view"
    and "get_descriptors (lsd_extractor s) (relabelled_slice (segmentation s) seg_view u v)
           (Some (roi_sub change_roi (get_begin context_roi))) [v] (voxel_size s) = Inr d"
    and "shape d = hd (shape (target_lsds s)) # roi_shape change_roi"
  shows "compute_edge_score s u v =
     Inr (masked_sq_error (shape (target_lsds s))
            (\<lambda>q. roi_contains change_roi (tl q) \<and> elems (segmentation s) (tl q) \<in> {u, v})
            (elems (target_lsds s))
            (\<lambda>q. elems d (hd q # map2 (-) (tl q) (roi_offset change_roi)))
        - masked_sq_error (shape (target_lsds s))
            (\<lambda>q. roi_contains change_roi (tl q) \<and> elems (segmentation s) (tl q) \<in> {u, v})
            (elems (target_lsds s)) (elems (lsds s)),
          s)"
proof -
  let ?C = "hd (shape (target_lsds s))"
  let ?sh = "shape (segmentation s)"
  let ?n = "length ?sh"
  let ?rel = "roi_sub change_roi (get_begin context_roi)"
  let ?m = "\<lambda>q. elems (segmentation s) (tl q) \<in> {u, v}"
  from get_lsds_edge_rois_wf [OF assms(1-5,8)] obtain ctx where
    p: "wf_pair s ctx roi_u roi_v" and ch: "change_roi = change_roi_of s ctx roi_u roi_v"
    and cx: "context_roi = context_roi_of s ctx roi_u roi_v"
    by blast
  note chw = change_roi_wf [OF p, folded ch]
  note cxw = context_roi_wf(1) [OF p, folded cx]
  note cxn = context_roi_wf(2) [OF p assms(6,7), folded cx]
  note lch = wf_roi_lengths [OF chw(1)] note lcx = wf_roi_lengths [OF cxw]
  note sh = wf_volumes_shape [OF assms(9)]
  from change_view_exists [OF p assms(6,7) ch cx assms(10)] obtain cw where
    gw: "getitem (read_view (segmentation s) seg_view) (to_slices ?rel) = Inr cw"
    and sw: "v_shape cw = roi_shape change_roi"
    and stw: "v_start cw = roi_offset ?rel"
    by blast
  define cv where "cv = \<lparr>v_start = 0 # roi_offset change_roi, v_shape = ?C # roi_shape change_roi\<rparr>"
  have g0: "getitem (segmentation s) (to_slices change_roi)
            = Inr \<lparr>v_start = roi_offset change_roi, v_shape = roi_shape change_roi\<rparr>"
    by (rule getitem_roi_within [OF refl chw(1-3)])
  have gt: "getitem (target_lsds s) (Slice None None # to_slices change_roi) = Inr cv"
    using getitem_chan [OF sh(1) refl g0] sh(3) by (simp add: cv_def)
  have gl: "getitem (lsds s) (Slice None None # to_slices change_roi) = Inr cv"
    using getitem_chan [OF sh(2) refl g0] sh(3) by (simp add: cv_def)
  have scv: "v_shape cv = ?C # roi_shape change_roi" by (simp add: cv_def)
  have cv': "cv = \<lparr>v_start = 0 # v_start \<lparr>v_start = roi_offset change_roi, v_shape = roi_shape change_roi\<rparr>,
     v_shape = ?C # v_shape \<lparr>v_start = roi_offset change_roi, v_shape = roi_shape change_roi\<rparr>\<rparr>"
    by (simp add: cv_def)
  note cf = chan_view_facts [OF g0 chw(1,2) sh(3) cv']
  have ins: "view_inside cv (?C # ?sh)"
    unfolding cv'
    by (rule view_inside_chan [OF getitem_roi_inside [OF refl chw(1,2) sh(4) g0] sh(3)])
  have key: "map2 (+) (v_start seg_view) (map2 (+) (v_start cw) (tl (rel_index cv q))) = tl q"
    and rl: "rel_index cv q = hd q # map2 (-) (tl q) (roi_offset change_roi)"
    and abs: "map2 (+) (v_start cv) (rel_index cv q) = q"
    if v: "in_view cv q" for q
  proof -
    from cf(1) [of q] v have c: "roi_contains change_roi (tl q)" by blast
    from cf(2) [OF v] show rl: "rel_index cv q = hd q # map2 (-) (tl q) (roi_offset change_roi)" .
    from abs_rel_index [of q cv] v show "map2 (+) (v_start cv) (rel_index cv q) = q"
      by (simp add: in_view_def)
    from change_roi_contains [OF p c [unfolded ch]]
    have "roi_contains context_roi (tl q)" "in_range ?sh (tl q)" by (simp_all add: cx)
    with in_view_roi [OF refl cxw cxn assms(10), of "tl q"] have "in_view seg_view (tl q)" by blast
    from view_start_roi [OF refl cxw cxn assms(10) this] have sv: "v_start seg_view = roi_offset context_roi" .
    from c lch have lq: "length (tl q) = ?n" by (simp add: roi_contains_def dims_def)
    show "map2 (+) (v_start seg_view) (map2 (+) (v_start cw) (tl (rel_index cv q))) = tl q"
      unfolding rl sv stw
      using lq lch lcx by (auto simp: roi_sub_def get_begin_def list_eq_iff_nth_eq)
  qed
  have set_eq: "{q. in_range (?C # ?sh) q \<and> in_view cv q \<and> ?m q}
       = {q. in_range (shape (target_lsds s)) q \<and>
             (roi_contains change_roi (tl q) \<and> elems (segmentation s) (tl q) \<in> {u, v})}"
    using cf(1) sh(1) by auto
  have merged: "(\<Sum>p | in_range (v_shape cv) p.
            (if elems (segmentation s)
                  (map2 (+) (v_start seg_view) (map2 (+) (v_start cw) (tl p))) \<in> {u, v}
             then elems (target_lsds s) (map2 (+) (v_start cv) p) - elems d p else 0)\<^sup>2)
     = masked_sq_error (shape (target_lsds s))
            (\<lambda>q. roi_contains change_roi (tl q) \<and> elems (segmentation s) (tl q) \<in> {u, v})
            (elems (target_lsds s))
            (\<lambda>q. elems d (hd q # map2 (-) (tl q) (roi_offset change_roi)))"
    unfolding masked_sq_error_set set_eq [symmetric]
  proof (rule masked_view_sum [OF ins])
    fix q assume "in_range (?C # ?sh) q" and v: "in_view cv q"
    show "(if elems (segmentation s)
                  (map2 (+) (v_start seg_view) (map2 (+) (v_start cw) (tl (rel_index cv q)))) \<in> {u, v}
             then elems (target_lsds s) (map2 (+) (v_start cv) (rel_index cv q))
                  - elems d (rel_index cv q) else 0)\<^sup>2
        = (if ?m q then (elems (target_lsds s) q
             - elems d (hd q # map2 (-) (tl q) (roi_offset change_roi)))\<^sup>2 else 0)"
      unfolding key [OF v] abs [OF v] unfolding rl [OF v] by simp
  qed
  have separate: "(\<Sum>p | in_range (v_shape cv) p.
            (if elems (segmentation s)
                  (map2 (+) (v_start seg_view) (map2 (+) (v_start cw) (tl p))) \<in> {u, v}
             then elems (target_lsds s) (map2 (+) (v_start cv) p)
                  - elems (lsds s) (map2 (+) (v_start cv) p) else 0)\<^sup>2)
     = masked_sq_error (shape (target_lsds s))
            (\<lambda>q. roi_contains change_roi (tl q) \<and> elems (segmentation s) (tl q) \<in> {u, v})
            (elems (target_lsds s)) (elems (lsds s))"
    unfolding masked_sq_error_set set_eq [symmetric]
  proof (rule masked_view_sum [OF ins])
    fix q assume "in_range (?C # ?sh) q" and v: "in_view cv q"
    show "(if elems (segmentation s)
                  (map2 (+) (v_start seg_view) (map2 (+) (v_start cw) (tl (rel_index cv q)))) \<in> {u, v}
             then elems (target_lsds s) (map2 (+) (v_start cv) (rel_index cv q))
                  - elems (lsds s) (map2 (+) (v_start cv) (rel_index cv q)) else 0)\<^sup>2
        = (if ?m q then (elems (target_lsds s) q - elems (lsds s) q)\<^sup>2 else 0)"
      unfolding key [OF v] abs [OF v] by simp
  qed
  show ?thesis
    unfolding compute_edge_score_eq [OF assms(1,10) gw sw gl gt scv assms(11,12)] merged separate ..
qed

theorem compute_edge_score_spec_witness:
  "compute_edge_score ex_state 1 2 = Inr (8 - 8, ex_state)"
proof -
  let ?ch = "\<lparr>roi_offset = [1], roi_shape = [2]\<rparr>"
  let ?cx = "\<lparr>roi_offset = [0], roi_shape = [4]\<rparr>"
  let ?vw = "\<lparr>v_start = [0], v_shape = [4]\<rparr>"
  let ?seg = "relabelled_slice (segmentation ex_state) ?vw 1 2"
  let ?rel = "roi_sub ?ch (get_begin ?cx)"
  let ?d = "\<lparr>shape = 1 # roi_shape ?rel,
            elems = (\<lambda>q. if elems ?seg (map2 (+) (roi_offset ?rel) (tl q)) \<in> set [2]
                         then 1 else 0 :: real)\<rparr>"
  have h: "node_roi ex_state 1 = Inr \<lparr>roi_offset = [0], roi_shape = [2]\<rparr>"
    "node_roi ex_state 2 = Inr \<lparr>roi_offset = [2], roi_shape = [2]\<rparr>"
    "wf_roi (length (shape (segmentation ex_state))) \<lparr>roi_offset = [0], roi_shape = [2]\<rparr>"
    "wf_roi (length (shape (segmentation ex_state))) \<lparr>roi_offset = [2], roi_shape = [2]\<rparr>"
    "nonneg_roi \<lparr>roi_offset = [0], roi_shape = [2]\<rparr>" "nonneg_roi \<lparr>roi_offset = [2], roi_shape = [2]\<rparr>"
    "wf_geometry ex_state" "wf_volumes ex_state"
    "getitem (segmentation ex_state) (to_slices ?cx) = Inr ?vw"
    "get_descriptors (lsd_extractor ex_state) ?seg (Some ?rel) [2] (voxel_size ex_state) = Inr ?d"
    "shape ?d = hd (shape (target_lsds ex_state)) # roi_shape ?ch"
    by (simp_all add: ex_defs graph_defs wf_roi_def nonneg_roi_def wf_geometry_def wf_volumes_def
        getitem_def to_slices_def get_begin_def get_end_def clip_index_def roi_sub_def)
  have v: "masked_sq_error (shape (target_lsds ex_state))
            (\<lambda>q. roi_contains ?ch (tl q) \<and> elems (segmentation ex_state) (tl q) \<in> {1, 2})
            (elems (target_lsds ex_state))
            (\<lambda>q. elems ?d (hd q # map2 (-) (tl q) (roi_offset ?ch))) = 8"
    "masked_sq_error (shape (target_lsds ex_state))
            (\<lambda>q. roi_contains ?ch (tl q) \<and> elems (segmentation ex_state) (tl q) \<in> {1, 2})
            (elems (target_lsds ex_state)) (elems (lsds ex_state)) = 8"
    by (simp_all add: masked_sq_error_def ex_defs roi_contains_def dims_def get_begin_def get_end_def
        relabelled_slice_def roi_sub_def in_range_def upto.simps)
  show ?thesis
    unfolding compute_edge_score_spec [OF ex_edge_rois h] v ..
qed

section \<open>Examples of construction\<close>

lemmas init_defs = init_def initialize_rag_def initialize_node_def initialize_edge_def RAG_def
  neighbour_labels_def footprint_def find_objects_first_def slice_to_roi_def snap_to_grid_def
  score_merge_def np_zeros_like_def upto.simps




section \<open>No shape error in construction\<close>













section \<open>Construction compares no shapes\<close>





section \<open>The initial graph\<close>







section \<open>Segmentation consistency\<close>

text \<open>
  Claim C5. After initialization and after every completed merge, every voxel of the
  segmentation carries the id of a surviving node of the graph, for an extractor with a
  positive downsampling factor. On the way, the stored region of every surviving node
  bounds all the voxels that carry its id, so that the region of \<open>u\<close> bounds them when
  \<open>u\<close> is merged into \<open>v\<close>; after that merge \<open>u\<close> survives no longer, and no voxel carries
  \<open>u\<close> any more. The surviving nodes are nodes of the graph.
\<close>

theorem segmentation_consistency:
  assumes "reachable s live" "0 < downsample (lsd_extractor s)"
  shows "(\<forall>p. in_range (shape (segmentation s)) p \<longrightarrow> elems (segmentation s) p \<in> live) \<and>
         (\<forall>w \<in> live. \<exists>r. node_roi s w = Inr r \<and> good_region s w r) \<and>
         live \<subseteq> set (node_ids (rag s)) \<and>
         (\<forall>u v s'. u \<in> live \<and> v \<in> live \<and> u \<noteq> v \<and> merge_nodes s u v = Inr s' \<longrightarrow>
            (\<forall>p. in_range (shape (segmentation s')) p \<longrightarrow>
                  elems (segmentation s') p \<in> live - {u}))"
proof -
  have inv: "(\<forall>p. in_range (shape (segmentation s)) p \<longrightarrow> elems (segmentation s) p \<in> live) \<and>
         (\<forall>w \<in> live. \<exists>r. node_roi s w = Inr r \<and> good_region s w r) \<and>
         live \<subseteq> set (node_ids (rag s))"
    using assms
  proof (induction rule: reachable.induct)
    case (constructed frags target ext vs s)
    from init_result(3) [OF constructed(1)] constructed(2) have "0 < downsample ext" by simp
    from init_consistent [OF constructed(1) this] show ?case by blast
  next
    case (merged s live u v s')
    from merge_nodes_steps [OF merged(5)] have "lsd_extractor s' = lsd_extractor s" by blast
    with merged have ih: "\<forall>p. in_range (shape (segmentation s)) p \<longrightarrow> elems (segmentation s) p \<in> live"
      "\<forall>w \<in> live. \<exists>r. node_roi s w = Inr r \<and> good_region s w r"
      "live \<subseteq> set (node_ids (rag s))"
      by simp_all
    from merge_nodes_regions [OF merged(5)] have "node_ids (rag s') = node_ids (rag s)" by blast
    with merge_nodes_consistent [OF merged(5,2,3,4) ih(1,2)] ih(3) show ?case by auto
  next
    case (rewired s live es w)
    then show ?case by (simp add: node_roi_def good_region_def)
  qed
  moreover have "\<forall>p. in_range (shape (segmentation s')) p \<longrightarrow>
                  elems (segmentation s') p \<in> live - {u}"
    if "u \<in> live \<and> v \<in> live \<and> u \<noteq> v \<and> merge_nodes s u v = Inr s'" for u v s'
    using merge_nodes_consistent(1) [of s u v s' live] that inv by blast
  ultimately show ?thesis by blast
qed

lemma ex_run:
  "succeeds (ebind (init (of_list [1, 1, 2, 2]) \<lparr>shape = [1, 4], elems = (\<lambda>p. 3)\<rparr>
                      indicator_extractor None) (\<lambda>s. merge_nodes s 1 2))"
  by (simp add: init_defs compute_node_score_def compute_edge_score_def get_lsds_edge_rois_def
      merge_nodes_def merge_segmentation_def
      ex_defs roi_defs array_defs graph_defs total_roi_def Let_def numeral_2_eq_2)

theorem segmentation_consistency_witness:
  "\<exists>s s'. init (of_list [1, 1, 2, 2]) \<lparr>shape = [1, 4], elems = (\<lambda>p. 3)\<rparr> indicator_extractor None
            = Inr s \<and>
          merge_nodes s 1 2 = Inr s' \<and> reachable s' ({1, 2} - {1}) \<and>
          list_all (\<lambda>p. elems (segmentation s') p = 2) (indices (shape (segmentation s')))"
proof -
  from ex_run obtain s s' where
    i: "init (of_list [1, 1, 2, 2]) \<lparr>shape = [1, 4], elems = (\<lambda>p. 3)\<rparr> indicator_extractor None
          = Inr s"
    and m: "merge_nodes s 1 2 = Inr s'"
    by (auto simp: succeeds_iff ebind_Inr_iff)
  have n: "set (node_ids (rag s)) = {1, 2}"
    unfolding init_result(6) [OF i]
    by (simp add: RAG_def of_list_def in_range_def upto.simps)
  from reachable.constructed [OF i] have "reachable s {1, 2}" by (simp add: n)
  from reachable.merged [OF this _ _ _ m] have r: "reachable s' ({1, 2} - {1})" by simp
  from merge_nodes_steps [OF m] init_result(3) [OF i]
  have "0 < downsample (lsd_extractor s')" by (auto simp: indicator_extractor_def)
  from segmentation_consistency [OF r this]
  have "\<forall>p. in_range (shape (segmentation s')) p \<longrightarrow> elems (segmentation s') p = 2" by auto
  then have "list_all (\<lambda>p. elems (segmentation s') p = 2) (indices (shape (segmentation s')))"
    by (simp add: list_all_iff set_indices)
  with i m r show ?thesis by blast
qed

end
